theory Spec2Isabelle
  imports Main "HOL-Library.Monad_Syntax"
begin

section \<open>Board primitives\<close>

text \<open>
  The program keeps every cell of a board as a Go string: \<open>"."\<close> for an empty
  point, \<open>"B"\<close> and \<open>"W"\<close> for the two colours.  A board is a slice of rows,
  indexed \<open>board[y][x]\<close>.  Coordinates and sizes are Go \<open>int\<close>s; every
  arithmetic step on them below stays within a few units of a board size, so
  they are modelled as unbounded integers.
\<close>

definition empty_cell :: string where
  "empty_cell = ''.''"

definition black :: string where
  "black = ''B''"

definition white :: string where
  "white = ''W''"

type_synonym board = "string list list"

text \<open>Go errors are values; each \<open>fmt.Errorf\<close> of the source is one constructor.\<close>

datatype error =
    CoordOutOfRange
  | InvalidCoordChar int
  | UnmatchedClose nat
  | UnmatchedOpen
  | ExpectedCloseFound nat char
  | ExpectedCloseAtEnd
  | InvalidUTF8 nat
  | UnexpectedEndAfterBackslash
  | ErrEOF
  | ParseErrorAt nat error
  | NoGameTrees
  | TreeHasNoNodes
  | InvalidSZ string
  | BoardTooLarge
  | NilParent
  | InvalidSequence
  | AtoiError string
  | EngineNotAttached
  | EngineError string
  | InvalidGTPCoord string
  | InvalidGTPLetter string
  | InvalidGTPNumber string
  | EngineIllegalMove

subsection \<open>Decimal output of integers (\<open>%d\<close>)\<close>

definition digit_char :: "nat \<Rightarrow> char" where
  "digit_char d = char_of (48 + d)"

function natToDec :: "nat \<Rightarrow> string" where
  "natToDec n = (if n < 10 then [digit_char n] else natToDec (n div 10) @ [digit_char (n mod 10)])"
  by pat_completeness auto
termination
  by (relation "measure (\<lambda>n. n)") auto

definition itoa :: "int \<Rightarrow> string" where
  "itoa i = (if i < 0 then CHR ''-'' # natToDec (nat (- i)) else natToDec (nat i))"

section \<open>Record coordinates\<close>

text \<open>
  \<open>charToInt\<close> takes a rune (a code point, here an integer) and returns the pair
  of the source: the index and the error (\<open>93\<close> accompanies the error).
\<close>

definition charToInt :: "int \<Rightarrow> int \<times> error option" where
  "charToInt c =
     (if c \<ge> 97 \<and> c \<le> 122 then (c - 97, None)
      else if c \<ge> 65 \<and> c \<le> 90 then (c - 65 + 26, None)
      else (93, Some (InvalidCoordChar c)))"

text \<open>
  \<open>intToChar\<close> builds the one-character string \<open>string(rune('a' + n))\<close>; in both
  branches that return a character the code point is below 128, so the string
  is the single byte with that code.
\<close>

definition intToChar :: "int \<Rightarrow> string \<times> error option" where
  "intToChar n =
     (if n \<ge> 0 \<and> n \<le> 25 then ([char_of (97 + n)], None)
      else if n \<ge> 26 \<and> n \<le> 51 then ([char_of (65 + n - 26)], None)
      else ('''', Some CoordOutOfRange))"

definition convertCoordinatesToSGF :: "int \<Rightarrow> int \<Rightarrow> string" where
  "convertCoordinatesToSGF x y = fst (intToChar x) @ fst (intToChar y)"

text \<open>\<open>rune(coord[i])\<close> reads one byte of the string as a code point.\<close>

definition convertSGFCoordToXY :: "string \<Rightarrow> (int \<times> int) option" where
  "convertSGFCoordToXY coord =
     (if length coord \<noteq> 2 then None
      else
        let (x, err1) = charToInt (of_char (coord ! 0));
            (y, err2) = charToInt (of_char (coord ! 1))
        in if err1 \<noteq> None \<or> err2 \<noteq> None then None
           else if x \<ge> 0 \<and> x < 52 \<and> y \<ge> 0 \<and> y < 52 then Some (x, y)
           else None)"

definition coordAlphabet :: "char set" where
  "coordAlphabet = set ''abcdefghijklmnopqrstuvwxyzABCDEFGHIJKLMNOPQRSTUVWXYZ''"

section \<open>Engine coordinates\<close>

definition letterRunes :: string where
  "letterRunes = ''ABCDEFGHJKLMNOPQRSTUVWXYZ''"

text \<open>\<open>clientToGTPCoords\<close> reads \<open>g.sizeY\<close>; it is the first argument here.\<close>

definition clientToGTPCoords :: "int \<Rightarrow> int \<Rightarrow> int \<Rightarrow> string" where
  "clientToGTPCoords sizeY x y =
     (if x < 0 \<or> x \<ge> int (length letterRunes) then ''''
      else
        let letter = [letterRunes ! nat x];
            number = sizeY - y
        in letter @ itoa number)"

text \<open>The command line \<open>fmt.Sprintf("play %s %s", stone, coord)\<close>.\<close>

definition playCommand :: "string \<Rightarrow> string \<Rightarrow> string" where
  "playCommand stone coord = ''play '' @ stone @ '' '' @ coord"

section \<open>Rules engine\<close>

text \<open>
  Reading or writing \<open>board[y][x]\<close> outside the slice panics in Go.  Functions
  that index a board return an \<open>option\<close>; \<open>None\<close> is that run-time panic.
\<close>

definition cellAt :: "'a list list \<Rightarrow> int \<Rightarrow> int \<Rightarrow> 'a option" where
  "cellAt b x y =
     (if 0 \<le> y \<and> nat y < length b \<and> 0 \<le> x \<and> nat x < length (b ! nat y)
      then Some (b ! nat y ! nat x) else None)"

definition setCell :: "'a list list \<Rightarrow> int \<Rightarrow> int \<Rightarrow> 'a \<Rightarrow> 'a list list option" where
  "setCell b x y v =
     (if 0 \<le> y \<and> nat y < length b \<and> 0 \<le> x \<and> nat x < length (b ! nat y)
      then Some (b[nat y := (b ! nat y)[nat x := v]]) else None)"

definition switchPlayer :: "string \<Rightarrow> string" where
  "switchPlayer player = (if player = black then white else black)"

definition dirs :: "(int \<times> int) list" where
  "dirs = [(0, -1), (0, 1), (-1, 0), (1, 0)]"

text \<open>The points of a \<open>sizeX\<close> by \<open>sizeY\<close> grid; the searches below stay inside it.\<close>

definition cells :: "int \<Rightarrow> int \<Rightarrow> (int \<times> int) set" where
  "cells sizeX sizeY = {0..<sizeX} \<times> {0..<sizeY}"

lemma finite_cells: "finite (cells sizeX sizeY)"
  by (simp add: cells_def)

lemma in_cells:
  "(x, y) \<in> cells sizeX sizeY \<longleftrightarrow> 0 \<le> x \<and> x < sizeX \<and> 0 \<le> y \<and> y < sizeY"
  by (simp add: cells_def)

lemma card_cells_insert:
  assumes "\<not> (x < 0 \<or> x \<ge> sizeX \<or> y < 0 \<or> y \<ge> sizeY)" and "(x, y) \<notin> visited"
  shows "card (cells sizeX sizeY - insert (x, y) visited) < card (cells sizeX sizeY - visited)"
proof (rule psubset_card_mono)
  show "finite (cells sizeX sizeY - visited)" using finite_cells by (rule finite_Diff)
  from assms have "(x, y) \<in> cells sizeX sizeY - visited" by (simp add: in_cells)
  then show "cells sizeX sizeY - insert (x, y) visited \<subset> cells sizeX sizeY - visited"
    by blast
qed

lemma card_cells_mono:
  assumes "visited \<subseteq> v"
  shows "card (cells sizeX sizeY - v) \<le> card (cells sizeX sizeY - visited)"
proof (rule card_mono)
  show "finite (cells sizeX sizeY - visited)" using finite_cells by (rule finite_Diff)
  from assms show "cells sizeX sizeY - v \<subseteq> cells sizeX sizeY - visited" by blast
qed

subsection \<open>Liberty search\<close>

text \<open>
  \<open>dfs\<close> threads the \<open>visited\<close> map through its recursive calls; the model
  returns it with the answer.  \<open>dfs_loop\<close> is the \<open>for _, d := range dirs\<close> loop
  of \<open>dfs\<close>, over the directions still to try.
\<close>

function dfs :: "board \<Rightarrow> int \<Rightarrow> int \<Rightarrow> string \<Rightarrow> (int \<times> int) set \<Rightarrow> int \<Rightarrow> int
    \<Rightarrow> (bool \<times> (int \<times> int) set) option"
  and dfs_loop :: "board \<Rightarrow> int \<Rightarrow> int \<Rightarrow> (int \<times> int) list \<Rightarrow> string \<Rightarrow> (int \<times> int) set
    \<Rightarrow> int \<Rightarrow> int \<Rightarrow> (bool \<times> (int \<times> int) set) option" where
  "dfs board x y player visited sizeX sizeY =
     (if x < 0 \<or> x \<ge> sizeX \<or> y < 0 \<or> y \<ge> sizeY then Some (False, visited)
      else if (x, y) \<in> visited then Some (False, visited)
      else case cellAt board x y of
        None \<Rightarrow> None
      | Some c \<Rightarrow>
          if c = empty_cell then Some (True, visited)
          else if c \<noteq> player then Some (False, visited)
          else dfs_loop board x y dirs player (insert (x, y) visited) sizeX sizeY)"
| "dfs_loop board x y [] player visited sizeX sizeY = Some (False, visited)"
| "dfs_loop board x y (d # ds) player visited sizeX sizeY =
     (case dfs board (x + fst d) (y + snd d) player visited sizeX sizeY of
        None \<Rightarrow> None
      | Some (r, visited') \<Rightarrow>
          if r then Some (True, visited')
          else dfs_loop board x y ds player visited' sizeX sizeY)"
  by pat_completeness auto

lemma dfs_mono_dom:
  "dfs_dfs_loop_dom (Inl (board, x, y, player, visited, sizeX, sizeY)) \<Longrightarrow>
   dfs board x y player visited sizeX sizeY = Some (r, v) \<Longrightarrow> visited \<subseteq> v"
  "dfs_dfs_loop_dom (Inr (board, x, y, ds, player, visited, sizeX, sizeY)) \<Longrightarrow>
   dfs_loop board x y ds player visited sizeX sizeY = Some (r, v) \<Longrightarrow> visited \<subseteq> v"
proof (induction board x y player visited sizeX sizeY and board x y ds player visited sizeX sizeY
    arbitrary: r v and r v rule: dfs_dfs_loop.pinduct)
  case (1 board x y player visited sizeX sizeY)
  from "1.prems" "1.hyps" have eq:
    "(if x < 0 \<or> x \<ge> sizeX \<or> y < 0 \<or> y \<ge> sizeY then Some (False, visited)
      else if (x, y) \<in> visited then Some (False, visited)
      else case cellAt board x y of None \<Rightarrow> None | Some c \<Rightarrow>
        if c = empty_cell then Some (True, visited)
        else if c \<noteq> player then Some (False, visited)
        else dfs_loop board x y dirs player (insert (x, y) visited) sizeX sizeY) = Some (r, v)"
    by (simp only: dfs.psimps)
  show ?case
  proof (cases "x < 0 \<or> x \<ge> sizeX \<or> y < 0 \<or> y \<ge> sizeY \<or> (x, y) \<in> visited")
    case True
    with eq show ?thesis by (auto split: if_splits)
  next
    case False
    show ?thesis
    proof (cases "cellAt board x y")
      case None
      with False eq show ?thesis by simp
    next
      case (Some c)
      show ?thesis
      proof (cases "c = empty_cell \<or> c \<noteq> player")
        case True
        with False Some eq show ?thesis by (auto split: if_splits)
      next
        case nb: False
        with False Some eq
        have "dfs_loop board x y dirs player (insert (x, y) visited) sizeX sizeY = Some (r, v)"
          by auto
        with False Some nb have "insert (x, y) visited \<subseteq> v"
          by (intro "1.IH") auto
        then show ?thesis by blast
      qed
    qed
  qed
next
  case (2 board x y player visited sizeX sizeY)
  from "2.prems" "2.hyps" have "Some (False, visited) = Some (r, v)"
    by (simp only: dfs_loop.psimps(1))
  then show ?case by simp
next
  case (3 board x y d ds player visited sizeX sizeY)
  from "3.prems" "3.hyps" have eq:
    "(case dfs board (x + fst d) (y + snd d) player visited sizeX sizeY of
        None \<Rightarrow> None
      | Some (r, visited') \<Rightarrow>
          if r then Some (True, visited')
          else dfs_loop board x y ds player visited' sizeX sizeY) = Some (r, v)"
    by (simp only: dfs_loop.psimps)
  then obtain r1 v1
    where c1: "dfs board (x + fst d) (y + snd d) player visited sizeX sizeY = Some (r1, v1)"
    by (cases "dfs board (x + fst d) (y + snd d) player visited sizeX sizeY") auto
  then have m1: "visited \<subseteq> v1" by (rule "3.IH"(1))
  show ?case
  proof (cases r1)
    case True
    with eq c1 have "v = v1" by simp
    with m1 show ?thesis by simp
  next
    case False
    with eq c1 have "dfs_loop board x y ds player v1 sizeX sizeY = Some (r, v)" by simp
    with c1 False have "v1 \<subseteq> v" by (intro "3.IH"(2)[of "(r1, v1)" r1 v1]) auto
    with m1 show ?thesis by blast
  qed
qed

termination dfs
proof (relation "inv_image (less_than <*lex*> less_than)
    (\<lambda>a. case a of
       Inl (board, x, y, player, visited, sizeX, sizeY) \<Rightarrow>
         (card (cells sizeX sizeY - visited), 0)
     | Inr (board, x, y, ds, player, visited, sizeX, sizeY) \<Rightarrow>
         (card (cells sizeX sizeY - visited), Suc (length ds)))",
    goal_cases)
  case 1
  show ?case by (intro wf_inv_image wf_lex_prod wf_less_than)
next
  case (2 board x y player visited sizeX sizeY c)
  then show ?case by (simp add: card_cells_insert)
next
  case (3 board x y d ds player visited sizeX sizeY)
  then show ?case by simp
next
  case (4 board x y d ds player visited sizeX sizeY p r v)
  then have "visited \<subseteq> v" by (auto dest: dfs_mono_dom(1))
  then have "card (cells sizeX sizeY - v) \<le> card (cells sizeX sizeY - visited)"
    by (rule card_cells_mono)
  then show ?case by auto
qed

declare dfs.simps [simp del]

definition hasLiberty :: "board \<Rightarrow> int \<Rightarrow> int \<Rightarrow> string \<Rightarrow> int \<Rightarrow> int \<Rightarrow> bool option" where
  "hasLiberty board x y player sizeX sizeY =
     map_option fst (dfs board x y player {} sizeX sizeY)"

subsection \<open>Group size\<close>

function groupDFS :: "board \<Rightarrow> int \<Rightarrow> int \<Rightarrow> string \<Rightarrow> (int \<times> int) set \<Rightarrow> int \<Rightarrow> int
    \<Rightarrow> (int \<times> int) set option"
  and groupDFS_loop :: "board \<Rightarrow> int \<Rightarrow> int \<Rightarrow> (int \<times> int) list \<Rightarrow> string
    \<Rightarrow> (int \<times> int) set \<Rightarrow> int \<Rightarrow> int \<Rightarrow> (int \<times> int) set option" where
  "groupDFS board x y player visited sizeX sizeY =
     (if x < 0 \<or> x \<ge> sizeX \<or> y < 0 \<or> y \<ge> sizeY then Some visited
      else if (x, y) \<in> visited then Some visited
      else case cellAt board x y of
        None \<Rightarrow> None
      | Some c \<Rightarrow>
          if c \<noteq> player then Some visited
          else groupDFS_loop board x y dirs player (insert (x, y) visited) sizeX sizeY)"
| "groupDFS_loop board x y [] player visited sizeX sizeY = Some visited"
| "groupDFS_loop board x y (d # ds) player visited sizeX sizeY =
     (case groupDFS board (x + fst d) (y + snd d) player visited sizeX sizeY of
        None \<Rightarrow> None
      | Some visited' \<Rightarrow> groupDFS_loop board x y ds player visited' sizeX sizeY)"
  by pat_completeness auto

lemma groupDFS_mono_dom:
  "groupDFS_groupDFS_loop_dom (Inl (board, x, y, player, visited, sizeX, sizeY)) \<Longrightarrow>
   groupDFS board x y player visited sizeX sizeY = Some v \<Longrightarrow> visited \<subseteq> v"
  "groupDFS_groupDFS_loop_dom (Inr (board, x, y, ds, player, visited, sizeX, sizeY)) \<Longrightarrow>
   groupDFS_loop board x y ds player visited sizeX sizeY = Some v \<Longrightarrow> visited \<subseteq> v"
proof (induction board x y player visited sizeX sizeY and board x y ds player visited sizeX sizeY
    arbitrary: v and v rule: groupDFS_groupDFS_loop.pinduct)
  case (1 board x y player visited sizeX sizeY)
  from "1.prems" "1.hyps" have eq:
    "(if x < 0 \<or> x \<ge> sizeX \<or> y < 0 \<or> y \<ge> sizeY then Some visited
      else if (x, y) \<in> visited then Some visited
      else case cellAt board x y of None \<Rightarrow> None | Some c \<Rightarrow>
        if c \<noteq> player then Some visited
        else groupDFS_loop board x y dirs player (insert (x, y) visited) sizeX sizeY) = Some v"
    by (simp only: groupDFS.psimps)
  show ?case
  proof (cases "x < 0 \<or> x \<ge> sizeX \<or> y < 0 \<or> y \<ge> sizeY \<or> (x, y) \<in> visited")
    case True
    with eq show ?thesis by (auto split: if_splits)
  next
    case False
    show ?thesis
    proof (cases "cellAt board x y")
      case None
      with False eq show ?thesis by simp
    next
      case (Some c)
      show ?thesis
      proof (cases "c \<noteq> player")
        case True
        with False Some eq show ?thesis by (auto split: if_splits)
      next
        case nb: False
        with False Some eq
        have "groupDFS_loop board x y dirs player (insert (x, y) visited) sizeX sizeY = Some v"
          by auto
        with False Some nb have "insert (x, y) visited \<subseteq> v"
          by (intro "1.IH") auto
        then show ?thesis by blast
      qed
    qed
  qed
next
  case (2 board x y player visited sizeX sizeY)
  from "2.prems" "2.hyps" have "Some visited = Some v"
    by (simp only: groupDFS_loop.psimps(1))
  then show ?case by simp
next
  case (3 board x y d ds player visited sizeX sizeY)
  from "3.prems" "3.hyps" have eq:
    "(case groupDFS board (x + fst d) (y + snd d) player visited sizeX sizeY of
        None \<Rightarrow> None
      | Some visited' \<Rightarrow> groupDFS_loop board x y ds player visited' sizeX sizeY) = Some v"
    by (simp only: groupDFS_loop.psimps)
  then obtain v1
    where c1: "groupDFS board (x + fst d) (y + snd d) player visited sizeX sizeY = Some v1"
    by (cases "groupDFS board (x + fst d) (y + snd d) player visited sizeX sizeY") auto
  then have m1: "visited \<subseteq> v1" by (rule "3.IH"(1))
  from eq c1 have "groupDFS_loop board x y ds player v1 sizeX sizeY = Some v" by simp
  with c1 have "v1 \<subseteq> v" by (intro "3.IH"(2)[of v1]) auto
  with m1 show ?case by blast
qed

termination groupDFS
proof (relation "inv_image (less_than <*lex*> less_than)
    (\<lambda>a. case a of
       Inl (board, x, y, player, visited, sizeX, sizeY) \<Rightarrow>
         (card (cells sizeX sizeY - visited), 0)
     | Inr (board, x, y, ds, player, visited, sizeX, sizeY) \<Rightarrow>
         (card (cells sizeX sizeY - visited), Suc (length ds)))",
    goal_cases)
  case 1
  show ?case by (intro wf_inv_image wf_lex_prod wf_less_than)
next
  case (2 board x y player visited sizeX sizeY c)
  then show ?case by (simp add: card_cells_insert)
next
  case (3 board x y d ds player visited sizeX sizeY)
  then show ?case by simp
next
  case (4 board x y d ds player visited sizeX sizeY v)
  then have "visited \<subseteq> v" by (auto dest: groupDFS_mono_dom(1))
  then have "card (cells sizeX sizeY - v) \<le> card (cells sizeX sizeY - visited)"
    by (rule card_cells_mono)
  then show ?case by auto
qed

declare groupDFS.simps [simp del]

text \<open>\<open>len(visited)\<close> counts the keys of the map.\<close>

definition getGroupSize :: "board \<Rightarrow> int \<Rightarrow> int \<Rightarrow> string \<Rightarrow> int \<Rightarrow> int \<Rightarrow> int option" where
  "getGroupSize board x y player sizeX sizeY =
     map_option (\<lambda>visited. int (card visited)) (groupDFS board x y player {} sizeX sizeY)"

subsection \<open>Removing a group\<close>

text \<open>\<open>removeDFS\<close> writes the board it is given; the model returns the written board.\<close>

function removeDFS :: "board \<Rightarrow> int \<Rightarrow> int \<Rightarrow> string \<Rightarrow> (int \<times> int) set \<Rightarrow> int \<Rightarrow> int
    \<Rightarrow> (board \<times> (int \<times> int) set) option"
  and removeDFS_loop :: "board \<Rightarrow> int \<Rightarrow> int \<Rightarrow> (int \<times> int) list \<Rightarrow> string
    \<Rightarrow> (int \<times> int) set \<Rightarrow> int \<Rightarrow> int \<Rightarrow> (board \<times> (int \<times> int) set) option" where
  "removeDFS board x y player visited sizeX sizeY =
     (if x < 0 \<or> x \<ge> sizeX \<or> y < 0 \<or> y \<ge> sizeY then Some (board, visited)
      else if (x, y) \<in> visited then Some (board, visited)
      else case cellAt board x y of
        None \<Rightarrow> None
      | Some c \<Rightarrow>
          if c \<noteq> player then Some (board, visited)
          else (case setCell board x y empty_cell of
                  None \<Rightarrow> None
                | Some board' \<Rightarrow>
                    removeDFS_loop board' x y dirs player (insert (x, y) visited) sizeX sizeY))"
| "removeDFS_loop board x y [] player visited sizeX sizeY = Some (board, visited)"
| "removeDFS_loop board x y (d # ds) player visited sizeX sizeY =
     (case removeDFS board (x + fst d) (y + snd d) player visited sizeX sizeY of
        None \<Rightarrow> None
      | Some (board', visited') \<Rightarrow> removeDFS_loop board' x y ds player visited' sizeX sizeY)"
  by pat_completeness auto

lemma removeDFS_mono_dom:
  "removeDFS_removeDFS_loop_dom (Inl (board, x, y, player, visited, sizeX, sizeY)) \<Longrightarrow>
   removeDFS board x y player visited sizeX sizeY = Some (b, v) \<Longrightarrow> visited \<subseteq> v"
  "removeDFS_removeDFS_loop_dom (Inr (board, x, y, ds, player, visited, sizeX, sizeY)) \<Longrightarrow>
   removeDFS_loop board x y ds player visited sizeX sizeY = Some (b, v) \<Longrightarrow> visited \<subseteq> v"
proof (induction board x y player visited sizeX sizeY and board x y ds player visited sizeX sizeY
    arbitrary: b v and b v rule: removeDFS_removeDFS_loop.pinduct)
  case (1 board x y player visited sizeX sizeY)
  from "1.prems" "1.hyps" have eq:
    "(if x < 0 \<or> x \<ge> sizeX \<or> y < 0 \<or> y \<ge> sizeY then Some (board, visited)
      else if (x, y) \<in> visited then Some (board, visited)
      else case cellAt board x y of None \<Rightarrow> None | Some c \<Rightarrow>
        if c \<noteq> player then Some (board, visited)
        else (case setCell board x y empty_cell of
                None \<Rightarrow> None
              | Some board' \<Rightarrow>
                  removeDFS_loop board' x y dirs player (insert (x, y) visited) sizeX sizeY))
     = Some (b, v)"
    by (simp only: removeDFS.psimps)
  show ?case
  proof (cases "x < 0 \<or> x \<ge> sizeX \<or> y < 0 \<or> y \<ge> sizeY \<or> (x, y) \<in> visited")
    case True
    with eq show ?thesis by (auto split: if_splits)
  next
    case False
    show ?thesis
    proof (cases "cellAt board x y")
      case None
      with False eq show ?thesis by simp
    next
      case (Some c)
      show ?thesis
      proof (cases "c \<noteq> player")
        case True
        with False Some eq show ?thesis by (auto split: if_splits)
      next
        case nb: False
        with False Some eq obtain board' where
          sc: "setCell board x y empty_cell = Some board'" and
          lp: "removeDFS_loop board' x y dirs player (insert (x, y) visited) sizeX sizeY = Some (b, v)"
          by (cases "setCell board x y empty_cell") auto
        with False Some nb have "insert (x, y) visited \<subseteq> v"
          by (intro "1.IH"[of c board']) auto
        then show ?thesis by blast
      qed
    qed
  qed
next
  case (2 board x y player visited sizeX sizeY)
  from "2.prems" "2.hyps" have "Some (board, visited) = Some (b, v)"
    by (simp only: removeDFS_loop.psimps(1))
  then show ?case by simp
next
  case (3 board x y d ds player visited sizeX sizeY)
  from "3.prems" "3.hyps" have eq:
    "(case removeDFS board (x + fst d) (y + snd d) player visited sizeX sizeY of
        None \<Rightarrow> None
      | Some (board', visited') \<Rightarrow> removeDFS_loop board' x y ds player visited' sizeX sizeY)
     = Some (b, v)"
    by (simp only: removeDFS_loop.psimps)
  then obtain b1 v1
    where c1: "removeDFS board (x + fst d) (y + snd d) player visited sizeX sizeY = Some (b1, v1)"
    by (cases "removeDFS board (x + fst d) (y + snd d) player visited sizeX sizeY") auto
  then have m1: "visited \<subseteq> v1" by (rule "3.IH"(1))
  from eq c1 have "removeDFS_loop b1 x y ds player v1 sizeX sizeY = Some (b, v)" by simp
  with c1 have "v1 \<subseteq> v" by (intro "3.IH"(2)[of "(b1, v1)" b1 v1]) auto
  with m1 show ?case by blast
qed

termination removeDFS
proof (relation "inv_image (less_than <*lex*> less_than)
    (\<lambda>a. case a of
       Inl (board, x, y, player, visited, sizeX, sizeY) \<Rightarrow>
         (card (cells sizeX sizeY - visited), 0)
     | Inr (board, x, y, ds, player, visited, sizeX, sizeY) \<Rightarrow>
         (card (cells sizeX sizeY - visited), Suc (length ds)))",
    goal_cases)
  case 1
  show ?case by (intro wf_inv_image wf_lex_prod wf_less_than)
next
  case (2 board x y player visited sizeX sizeY c board')
  then show ?case by (simp add: card_cells_insert)
next
  case (3 board x y d ds player visited sizeX sizeY)
  then show ?case by simp
next
  case (4 board x y d ds player visited sizeX sizeY p b v)
  then have "visited \<subseteq> v" by (auto dest: removeDFS_mono_dom(1))
  then have "card (cells sizeX sizeY - v) \<le> card (cells sizeX sizeY - visited)"
    by (rule card_cells_mono)
  then show ?case by auto
qed

declare removeDFS.simps [simp del]

text \<open>\<open>removeGroup\<close> returns the number of stones removed, with the written board.\<close>

definition removeGroup :: "board \<Rightarrow> int \<Rightarrow> int \<Rightarrow> string \<Rightarrow> int \<Rightarrow> int \<Rightarrow> (board \<times> int) option" where
  "removeGroup board x y player sizeX sizeY =
     map_option (\<lambda>(board', visited). (board', int (card visited)))
       (removeDFS board x y player {} sizeX sizeY)"

section \<open>Game state\<close>

text \<open>
  Nodes of the game tree are heap objects reached through pointers (\<open>parent\<close>,
  \<open>children\<close>, \<open>g.currentNode\<close>, \<open>g.rootNode\<close>, the values of \<open>g.nodeMap\<close>).
  The model keeps them in the list \<open>heap\<close>; a pointer is an index into it,
  \<open>None\<close> is \<open>nil\<close>, and a new object goes to the end of the list.  Every
  board is written only through the node that owns it (\<open>makeEmptyBoard\<close> and
  \<open>copyBoard\<close> allocate all rows afresh), so a node holds its board as a value.

  Two field names are also names of local variables throughout the source and
  carry a prefix here: \<open>player\<close> of \<open>GameTreeNode\<close> is \<open>nodePlayer\<close>, and
  \<open>sizeX\<close>, \<open>sizeY\<close> of \<open>Game\<close> are \<open>gSizeX\<close>, \<open>gSizeY\<close>; \<open>id\<close> is
  \<open>nodeId\<close>.  The widgets of \<open>Game\<close>, the engine's process handles and \<open>komi\<close>
  take no part in what follows; \<open>gtpAttached\<close> stands for \<open>g.gtpCmd != nil\<close>.
\<close>

record GameTreeNode =
  boardState :: board
  move :: "int \<times> int"
  nodePlayer :: string
  children :: "nat list"
  parent :: "nat option"
  nodeId :: string
  koX :: int
  koY :: int
  Comment :: string
  addedBlackStones :: "bool list list"
  addedWhiteStones :: "bool list list"
  AE :: "bool list list"
  CR :: "bool list list"
  SQ :: "bool list list"
  TR :: "bool list list"
  MA :: "bool list list"
  LB :: "string list list"

record Game =
  gSizeX :: int
  gSizeY :: int
  currentNode :: "nat option"
  rootNode :: "nat option"
  nodeMap :: "string \<rightharpoonup> nat"
  idCounter :: int
  heap :: "GameTreeNode list"
  mouseMode :: string
  territoryMap :: "string list list"
  gtpAttached :: bool
  gtpColor :: string

text \<open>Following a pointer; \<open>None\<close> is the panic of a \<open>nil\<close> dereference.\<close>

definition getNode :: "Game \<Rightarrow> nat option \<Rightarrow> GameTreeNode option" where
  "getNode g p =
     (case p of
        None \<Rightarrow> None
      | Some a \<Rightarrow> if a < length (heap g) then Some (heap g ! a) else None)"

definition setNode :: "Game \<Rightarrow> nat \<Rightarrow> GameTreeNode \<Rightarrow> Game" where
  "setNode g a n = g\<lparr>heap := (heap g)[a := n]\<rparr>"

definition makeRow :: "int \<Rightarrow> 'a \<Rightarrow> 'a list" where
  "makeRow n v = replicate (nat n) v"

text \<open>\<open>make\<close> with a negative length panics.\<close>

definition makeGrid :: "int \<Rightarrow> int \<Rightarrow> 'a \<Rightarrow> 'a list list option" where
  "makeGrid sizeX sizeY v =
     (if sizeY < 0 then None
      else if sizeY > 0 \<and> sizeX < 0 then None
      else Some (replicate (nat sizeY) (makeRow sizeX v)))"

definition makeEmptyBoard :: "int \<Rightarrow> int \<Rightarrow> board option" where
  "makeEmptyBoard sizeX sizeY = makeGrid sizeX sizeY empty_cell"

text \<open>A copy of a board has the same rows with the same cells.\<close>

definition copyBoard :: "board \<Rightarrow> board" where
  "copyBoard board = map (\<lambda>row. row) board"

subsection \<open>Captures and ko\<close>

fun captureLoop :: "Game \<Rightarrow> int \<Rightarrow> int \<Rightarrow> string \<Rightarrow> (int \<times> int) list \<Rightarrow> board
    \<Rightarrow> int list \<Rightarrow> (int \<times> int) list \<Rightarrow> (board \<times> int list \<times> (int \<times> int) list) option" where
  "captureLoop g x y opponent [] board capturedGroupsSizes capturedGroupsCoords =
     Some (board, capturedGroupsSizes, capturedGroupsCoords)"
| "captureLoop g x y opponent (d # ds) board capturedGroupsSizes capturedGroupsCoords =
     (let nx = x + fst d; ny = y + snd d in
      if nx < 0 \<or> nx \<ge> gSizeX g \<or> ny < 0 \<or> ny \<ge> gSizeY g
      then captureLoop g x y opponent ds board capturedGroupsSizes capturedGroupsCoords
      else case cellAt board nx ny of
        None \<Rightarrow> None
      | Some c \<Rightarrow>
          if c = opponent then
            (case hasLiberty board nx ny opponent (gSizeX g) (gSizeY g) of
               None \<Rightarrow> None
             | Some lib \<Rightarrow>
                 if \<not> lib then
                   (case getGroupSize board nx ny opponent (gSizeX g) (gSizeY g) of
                      None \<Rightarrow> None
                    | Some groupSize \<Rightarrow>
                        (case removeGroup board nx ny opponent (gSizeX g) (gSizeY g) of
                           None \<Rightarrow> None
                         | Some (board', n) \<Rightarrow>
                             captureLoop g x y opponent ds board'
                               (capturedGroupsSizes @ [groupSize])
                               (capturedGroupsCoords @ [(nx, ny)])))
                 else captureLoop g x y opponent ds board capturedGroupsSizes capturedGroupsCoords)
          else captureLoop g x y opponent ds board capturedGroupsSizes capturedGroupsCoords)"

text \<open>
  \<open>captureStones\<close> writes the board it is given and returns the ko point; the
  model returns the written board with it.
\<close>

definition captureStones :: "Game \<Rightarrow> board \<Rightarrow> int \<Rightarrow> int \<Rightarrow> string \<Rightarrow> (board \<times> int \<times> int) option" where
  "captureStones g board x y player =
     (let opponent = switchPlayer player in
      case captureLoop g x y opponent dirs board [] [] of
        None \<Rightarrow> None
      | Some (board1, capturedGroupsSizes, capturedGroupsCoords) \<Rightarrow>
          (case hasLiberty board1 x y player (gSizeX g) (gSizeY g) of
             None \<Rightarrow> None
           | Some lib \<Rightarrow>
               (case (if \<not> lib
                      then map_option fst (removeGroup board1 x y player (gSizeX g) (gSizeY g))
                      else Some board1) of
                  None \<Rightarrow> None
                | Some board2 \<Rightarrow>
                    if length capturedGroupsSizes = 1 then
                      (case getGroupSize board2 x y player (gSizeX g) (gSizeY g) of
                         None \<Rightarrow> None
                       | Some capturingGroupSize \<Rightarrow>
                           let capturedGroupSize = capturedGroupsSizes ! 0 in
                           if capturedGroupSize = 1 \<and> capturingGroupSize = 1
                           then Some (board2, fst (capturedGroupsCoords ! 0),
                                      snd (capturedGroupsCoords ! 0))
                           else Some (board2, -1, -1))
                    else Some (board2, -1, -1))))"

fun getCapturedLoop :: "Game \<Rightarrow> board \<Rightarrow> int \<Rightarrow> int \<Rightarrow> string \<Rightarrow> (int \<times> int) list
    \<Rightarrow> (int \<times> int) list \<Rightarrow> (int \<times> int) list option" where
  "getCapturedLoop g board x y opponent [] captured = Some captured"
| "getCapturedLoop g board x y opponent (d # ds) captured =
     (let nx = x + fst d; ny = y + snd d in
      if nx < 0 \<or> nx \<ge> gSizeX g \<or> ny < 0 \<or> ny \<ge> gSizeY g
      then getCapturedLoop g board x y opponent ds captured
      else case cellAt board nx ny of
        None \<Rightarrow> None
      | Some c \<Rightarrow>
          if c = opponent then
            (case hasLiberty board nx ny opponent (gSizeX g) (gSizeY g) of
               None \<Rightarrow> None
             | Some lib \<Rightarrow>
                 if \<not> lib then getCapturedLoop g board x y opponent ds (captured @ [(nx, ny)])
                 else getCapturedLoop g board x y opponent ds captured)
          else getCapturedLoop g board x y opponent ds captured)"

definition getCapturedStones :: "Game \<Rightarrow> board \<Rightarrow> int \<Rightarrow> int \<Rightarrow> string \<Rightarrow> (int \<times> int) list option" where
  "getCapturedStones g board x y opponent = getCapturedLoop g board x y opponent dirs []"

definition isMoveLegal :: "Game \<Rightarrow> int \<Rightarrow> int \<Rightarrow> string \<Rightarrow> bool option" where
  "isMoveLegal g x y player =
     (case getNode g (currentNode g) of
        None \<Rightarrow> None
      | Some cur \<Rightarrow>
          if x = koX cur \<and> y = koY cur then Some False
          else (case setCell (copyBoard (boardState cur)) x y player of
                  None \<Rightarrow> None
                | Some boardCopy \<Rightarrow>
                    let opponent = switchPlayer player in
                    (case getCapturedStones g boardCopy x y opponent of
                       None \<Rightarrow> None
                     | Some captured \<Rightarrow>
                         if length captured > 0 then Some True
                         else (case hasLiberty boardCopy x y player (gSizeX g) (gSizeY g) of
                                 None \<Rightarrow> None
                               | Some lib \<Rightarrow> if lib then Some True else Some False))))"

section \<open>Territory scorer\<close>

text \<open>
  The cells of the territory map are \<open>"B"\<close>, \<open>"W"\<close> and \<open>"?"\<close>.  The nested
  loops \<open>for y := 0; y < g.sizeY; y++ { for x := 0; x < g.sizeX; x++\<close> visit
  the points of \<open>allPoints\<close> in its order.
\<close>

definition undecided :: string where
  "undecided = ''?''"

definition allPoints :: "int \<Rightarrow> int \<Rightarrow> (int \<times> int) list" where
  "allPoints sizeX sizeY = concat (map (\<lambda>y. map (\<lambda>x. (x, y)) [0..sizeX - 1]) [0..sizeY - 1])"

fun initializeLoop :: "board \<Rightarrow> (int \<times> int) list \<Rightarrow> string list list \<Rightarrow> string list list option" where
  "initializeLoop board [] tmap = Some tmap"
| "initializeLoop board ((x, y) # rest) tmap =
     (case cellAt board x y of
        None \<Rightarrow> None
      | Some stone \<Rightarrow>
          (case setCell tmap x y (if stone = black \<or> stone = white then stone else undecided) of
             None \<Rightarrow> None
           | Some tmap' \<Rightarrow> initializeLoop board rest tmap'))"

definition initializeTerritoryMap :: "Game \<Rightarrow> Game option" where
  "initializeTerritoryMap g = do {
     fresh \<leftarrow> makeGrid (gSizeX g) (gSizeY g) '''';
     cur \<leftarrow> getNode g (currentNode g);
     tmap \<leftarrow> initializeLoop (boardState cur) (allPoints (gSizeX g) (gSizeY g)) fresh;
     Some (g\<lparr>territoryMap := tmap\<rparr>)
   }"

subsection \<open>Flood fill of an empty region\<close>

text \<open>
  \<open>adjacentStones\<close> is a Go map used as a set of colours; the model keeps its
  keys in a list without repetition.  The stack grows and shrinks at its end.
  \<open>floodDirs\<close> is the loop over the four neighbours of the popped point,
  \<open>floodLoop\<close> the loop \<open>for len(stack) > 0\<close>.  The \<open>visited\<close> matrix has
  \<open>g.sizeY\<close> rows of \<open>g.sizeX\<close> cells, so reading it elsewhere panics.
\<close>

fun floodDirs :: "int \<Rightarrow> int \<Rightarrow> board \<Rightarrow> string list list \<Rightarrow> (int \<times> int) set \<Rightarrow> int \<Rightarrow> int
    \<Rightarrow> (int \<times> int) list \<Rightarrow> (int \<times> int) list \<Rightarrow> string list
    \<Rightarrow> ((int \<times> int) list \<times> string list) option" where
  "floodDirs sizeX sizeY board tmap visited cx cy [] stack adjacentStones =
     Some (stack, adjacentStones)"
| "floodDirs sizeX sizeY board tmap visited cx cy (d # ds) stack adjacentStones =
     (let nx = cx + fst d; ny = cy + snd d in
      if nx \<ge> 0 \<and> nx < sizeX \<and> ny \<ge> 0 \<and> ny < sizeY then
        (case cellAt tmap nx ny of
           None \<Rightarrow> None
         | Some neighborStone \<Rightarrow>
             (case cellAt board nx ny of
                None \<Rightarrow> None
              | Some c \<Rightarrow>
                  if c = empty_cell \<and> (nx, ny) \<notin> visited
                  then floodDirs sizeX sizeY board tmap visited cx cy ds
                         (stack @ [(nx, ny)]) adjacentStones
                  else if neighborStone = black \<or> neighborStone = white
                  then floodDirs sizeX sizeY board tmap visited cx cy ds stack
                         (List.insert neighborStone adjacentStones)
                  else floodDirs sizeX sizeY board tmap visited cx cy ds stack adjacentStones))
      else floodDirs sizeX sizeY board tmap visited cx cy ds stack adjacentStones)"

function floodLoop :: "int \<Rightarrow> int \<Rightarrow> board \<Rightarrow> string list list \<Rightarrow> (int \<times> int) list
    \<Rightarrow> (int \<times> int) set \<Rightarrow> string list \<Rightarrow> (int \<times> int) list
    \<Rightarrow> ((int \<times> int) set \<times> string list \<times> (int \<times> int) list) option" where
  "floodLoop sizeX sizeY board tmap stack visited adjacentStones region =
     (if stack = [] then Some (visited, adjacentStones, region)
      else
        let cx = fst (last stack); cy = snd (last stack); stack1 = butlast stack in
        if cx < 0 \<or> cx \<ge> sizeX \<or> cy < 0 \<or> cy \<ge> sizeY then None
        else if (cx, cy) \<in> visited
        then floodLoop sizeX sizeY board tmap stack1 visited adjacentStones region
        else
          (case floodDirs sizeX sizeY board tmap (insert (cx, cy) visited) cx cy dirs
                  stack1 adjacentStones of
             None \<Rightarrow> None
           | Some (stack2, adjacentStones2) \<Rightarrow>
               floodLoop sizeX sizeY board tmap stack2 (insert (cx, cy) visited)
                 adjacentStones2 (region @ [(cx, cy)])))"
  by pat_completeness auto
termination
proof (relation "inv_image (less_than <*lex*> less_than)
    (\<lambda>(sizeX, sizeY, board, tmap, stack, visited, adjacentStones, region).
       (card (cells sizeX sizeY - visited), length stack))", goal_cases)
  case 1
  show ?case by (intro wf_inv_image wf_lex_prod wf_less_than)
next
  case (2 sizeX sizeY board tmap stack visited adjacentStones region cx cy stack1)
  then show ?case by simp
next
  case (3 sizeX sizeY board tmap stack visited adjacentStones region cx cy stack1 p stack2 adj2)
  then have "card (cells sizeX sizeY - insert (cx, cy) visited) < card (cells sizeX sizeY - visited)"
    by (intro card_cells_insert) auto
  then show ?case by simp
qed

declare floodLoop.simps [simp del]

fun paint :: "string list list \<Rightarrow> (int \<times> int) list \<Rightarrow> string \<Rightarrow> string list list option" where
  "paint tmap [] owner = Some tmap"
| "paint tmap (pos # rest) owner =
     (case setCell tmap (fst pos) (snd pos) owner of
        None \<Rightarrow> None
      | Some tmap' \<Rightarrow> paint tmap' rest owner)"

fun assignLoop :: "int \<Rightarrow> int \<Rightarrow> board \<Rightarrow> (int \<times> int) list \<Rightarrow> string list list
    \<Rightarrow> (int \<times> int) set \<Rightarrow> string list list option" where
  "assignLoop sizeX sizeY board [] tmap visited = Some tmap"
| "assignLoop sizeX sizeY board ((x, y) # rest) tmap visited =
     (case cellAt board x y of
        None \<Rightarrow> None
      | Some c \<Rightarrow>
          if c = empty_cell \<and> (x, y) \<notin> visited then
            (case floodLoop sizeX sizeY board tmap [(x, y)] visited [] [] of
               None \<Rightarrow> None
             | Some (visited', adjacentStones, region) \<Rightarrow>
                 (case paint tmap region
                         (if length adjacentStones = 1 then adjacentStones ! 0 else undecided) of
                    None \<Rightarrow> None
                  | Some tmap' \<Rightarrow> assignLoop sizeX sizeY board rest tmap' visited'))
          else assignLoop sizeX sizeY board rest tmap visited)"

definition assignTerritoryToEmptyRegions :: "Game \<Rightarrow> Game option" where
  "assignTerritoryToEmptyRegions g = do {
     noVisits \<leftarrow> makeGrid (gSizeX g) (gSizeY g) False;
     cur \<leftarrow> getNode g (currentNode g);
     tmap \<leftarrow> assignLoop (gSizeX g) (gSizeY g) (boardState cur)
               (allPoints (gSizeX g) (gSizeY g)) (territoryMap g) {};
     Some (g\<lparr>territoryMap := tmap\<rparr>)
   }"


subsection \<open>Toggling a group\<close>

text \<open>
  The flood of \<open>toggleGroupStatus\<close> keeps its \<open>visited\<close> points in a Go map,
  so it reads no matrix out of range; it writes the territory map as it goes.
\<close>

fun toggleDirs :: "int \<Rightarrow> int \<Rightarrow> board \<Rightarrow> string \<Rightarrow> (int \<times> int) set \<Rightarrow> int \<Rightarrow> int
    \<Rightarrow> (int \<times> int) list \<Rightarrow> (int \<times> int) list \<Rightarrow> (int \<times> int) list option" where
  "toggleDirs sizeX sizeY board originalOwner visited cx cy [] stack = Some stack"
| "toggleDirs sizeX sizeY board originalOwner visited cx cy (d # ds) stack =
     (let nx = cx + fst d; ny = cy + snd d in
      if nx \<ge> 0 \<and> nx < sizeX \<and> ny \<ge> 0 \<and> ny < sizeY then
        (case cellAt board nx ny of
           None \<Rightarrow> None
         | Some neighborStone \<Rightarrow>
             if (nx, ny) \<notin> visited \<and> (neighborStone = originalOwner \<or> neighborStone = empty_cell)
             then toggleDirs sizeX sizeY board originalOwner visited cx cy ds (stack @ [(nx, ny)])
             else toggleDirs sizeX sizeY board originalOwner visited cx cy ds stack)
      else toggleDirs sizeX sizeY board originalOwner visited cx cy ds stack)"

lemma toggleDirs_stack:
  "toggleDirs sizeX sizeY board originalOwner visited cx cy ds stack = Some stack'
   \<Longrightarrow> set stack' \<subseteq> set stack \<union> cells sizeX sizeY"
proof (induction ds arbitrary: stack)
  case Nil
  then show ?case by auto
next
  case (Cons d ds)
  show ?case
  proof (cases "cx + fst d \<ge> 0 \<and> cx + fst d < sizeX \<and> cy + snd d \<ge> 0 \<and> cy + snd d < sizeY")
    case False
    with Cons.prems
    have "toggleDirs sizeX sizeY board originalOwner visited cx cy ds stack = Some stack'"
      by (auto simp: Let_def)
    then show ?thesis by (rule Cons.IH)
  next
    case True
    then have inb: "(cx + fst d, cy + snd d) \<in> cells sizeX sizeY" by (simp add: in_cells)
    from Cons.prems True obtain st where
      rec: "toggleDirs sizeX sizeY board originalOwner visited cx cy ds st = Some stack'"
      and st: "st = stack \<or> st = stack @ [(cx + fst d, cy + snd d)]"
      by (auto simp: Let_def split: option.splits if_splits)
    from rec have "set stack' \<subseteq> set st \<union> cells sizeX sizeY" by (rule Cons.IH)
    with st inb show ?thesis by auto
  qed
qed

function toggleLoop :: "int \<Rightarrow> int \<Rightarrow> board \<Rightarrow> string \<Rightarrow> string \<Rightarrow> string list list
    \<Rightarrow> (int \<times> int) list \<Rightarrow> (int \<times> int) set \<Rightarrow> string list list option" where
  "toggleLoop sizeX sizeY board originalOwner newOwner tmap stack visited =
     (if stack = [] then Some tmap
      else
        let cx = fst (last stack); cy = snd (last stack); stack1 = butlast stack in
        if (cx, cy) \<in> visited
        then toggleLoop sizeX sizeY board originalOwner newOwner tmap stack1 visited
        else
          (case cellAt board cx cy of
             None \<Rightarrow> None
           | Some stone \<Rightarrow>
               (case (if stone = originalOwner then setCell tmap cx cy newOwner else Some tmap) of
                  None \<Rightarrow> None
                | Some tmap1 \<Rightarrow>
                    (case toggleDirs sizeX sizeY board originalOwner (insert (cx, cy) visited)
                            cx cy dirs stack1 of
                       None \<Rightarrow> None
                     | Some stack2 \<Rightarrow>
                         toggleLoop sizeX sizeY board originalOwner newOwner tmap1 stack2
                           (insert (cx, cy) visited)))))"
  by pat_completeness auto
termination
proof (relation "inv_image (less_than <*lex*> less_than)
    (\<lambda>(sizeX, sizeY, board, originalOwner, newOwner, tmap, stack, visited).
       (card ((cells sizeX sizeY \<union> set stack) - visited), length stack))", goal_cases)
  case 1
  show ?case by (intro wf_inv_image wf_lex_prod wf_less_than)
next
  case (2 sizeX sizeY board originalOwner newOwner tmap stack visited cx cy stack1)
  then have "set stack1 \<subseteq> set stack" by (auto dest: in_set_butlastD)
  then have "(cells sizeX sizeY \<union> set stack1) - visited \<subseteq> (cells sizeX sizeY \<union> set stack) - visited"
    by blast
  moreover have "finite ((cells sizeX sizeY \<union> set stack) - visited)"
    by (simp add: finite_cells)
  ultimately have "card ((cells sizeX sizeY \<union> set stack1) - visited)
      \<le> card ((cells sizeX sizeY \<union> set stack) - visited)"
    by (intro card_mono)
  moreover from 2 have "length stack1 < length stack" by simp
  ultimately show ?case by auto
next
  case (3 sizeX sizeY board originalOwner newOwner tmap stack visited cx cy stack1 stone tmap1 stack2)
  then have ne: "stack \<noteq> []" and nv: "(cx, cy) \<notin> visited" by simp_all
  from 3 ne have top: "(cx, cy) \<in> set stack" by (metis last_in_set prod.collapse)
  from 3 have "toggleDirs sizeX sizeY board originalOwner (insert (cx, cy) visited) cx cy dirs
      stack1 = Some stack2" by simp
  then have "set stack2 \<subseteq> set stack1 \<union> cells sizeX sizeY" by (rule toggleDirs_stack)
  moreover from 3 have "set stack1 \<subseteq> set stack" by (auto dest: in_set_butlastD)
  ultimately have "(cells sizeX sizeY \<union> set stack2) - insert (cx, cy) visited
      \<subset> (cells sizeX sizeY \<union> set stack) - visited"
    using top nv by blast
  moreover have "finite ((cells sizeX sizeY \<union> set stack) - visited)"
    by (simp add: finite_cells)
  ultimately have "card ((cells sizeX sizeY \<union> set stack2) - insert (cx, cy) visited)
      < card ((cells sizeX sizeY \<union> set stack) - visited)"
    by (intro psubset_card_mono)
  then show ?case by simp
qed

declare toggleLoop.simps [simp del]

fun resetLoop :: "board \<Rightarrow> (int \<times> int) list \<Rightarrow> string list list \<Rightarrow> string list list option" where
  "resetLoop board [] tmap = Some tmap"
| "resetLoop board ((x, y) # rest) tmap =
     (case cellAt board x y of
        None \<Rightarrow> None
      | Some c \<Rightarrow>
          if c = empty_cell
          then (case setCell tmap x y undecided of
                  None \<Rightarrow> None
                | Some tmap' \<Rightarrow> resetLoop board rest tmap')
          else resetLoop board rest tmap)"

definition toggleGroupStatus :: "Game \<Rightarrow> int \<Rightarrow> int \<Rightarrow> Game option" where
  "toggleGroupStatus g x y = do {
     cur \<leftarrow> getNode g (currentNode g);
     originalOwner \<leftarrow> cellAt (boardState cur) x y;
     if originalOwner \<noteq> black \<and> originalOwner \<noteq> white then Some g
     else do {
       owner \<leftarrow> cellAt (territoryMap g) x y;
       let newOwner = switchPlayer owner;
       tmap1 \<leftarrow> toggleLoop (gSizeX g) (gSizeY g) (boardState cur) originalOwner newOwner
                  (territoryMap g) [(x, y)] {};
       tmap2 \<leftarrow> resetLoop (boardState cur) (allPoints (gSizeX g) (gSizeY g)) tmap1;
       assignTerritoryToEmptyRegions (g\<lparr>territoryMap := tmap2\<rparr>)
     }
   }"

subsection \<open>Creating nodes\<close>

text \<open>
  \<open>newGameTreeNode\<close> counts \<open>g.idCounter\<close> up, allocates the node with an empty
  board and empty overlays of \<open>g.sizeY\<close> rows, and files it in \<open>g.nodeMap\<close>
  under its id.  The other fields have Go's zero values.  The result is the new
  state with the pointer to the new node.
\<close>

definition newGameTreeNode :: "Game \<Rightarrow> (Game \<times> nat) option" where
  "newGameTreeNode g =
     (let counter = idCounter g + 1 in
      case makeEmptyBoard (gSizeX g) (gSizeY g) of
        None \<Rightarrow> None
      | Some emptyBoard \<Rightarrow>
          (case makeGrid (gSizeX g) (gSizeY g) False of
             None \<Rightarrow> None
           | Some noMarks \<Rightarrow>
               (case makeGrid (gSizeX g) (gSizeY g) '''' of
                  None \<Rightarrow> None
                | Some noLabels \<Rightarrow>
                    let newNode = \<lparr>boardState = emptyBoard, move = (0, 0), nodePlayer = '''',
                          children = [], parent = None, nodeId = itoa counter,
                          koX = -1, koY = -1, Comment = '''',
                          addedBlackStones = noMarks, addedWhiteStones = noMarks, AE = noMarks,
                          CR = noMarks, SQ = noMarks, TR = noMarks, MA = noMarks,
                          LB = noLabels\<rparr>;
                        a = length (heap g)
                    in Some (g\<lparr>idCounter := counter, heap := heap g @ [newNode],
                               nodeMap := (nodeMap g)(nodeId newNode \<mapsto> a)\<rparr>, a))))"

text \<open>
  \<open>updateCommentTextbox\<close>, \<open>redrawBoard\<close>, \<open>updateGameTreeUI\<close> and
  \<open>exitScoringMode\<close> write widgets only: the text they put into the comment
  entry is the comment of the current node, which the entry's callback stores
  back unchanged.  They do not appear in the model.
\<close>

definition initializeBoard :: "Game \<Rightarrow> Game option" where
  "initializeBoard g =
     (case newGameTreeNode (g\<lparr>idCounter := 1\<rparr>) of
        None \<Rightarrow> None
      | Some (g1, root) \<Rightarrow>
          let g2 = setNode g1 root ((heap g1 ! root)\<lparr>nodePlayer := ''''\<rparr>);
              g3 = g2\<lparr>rootNode := Some root, currentNode := Some root\<rparr>
          in Some (g3\<lparr>nodeMap := Map.empty(nodeId (heap g3 ! root) \<mapsto> root)\<rparr>))"

definition setCurrentNode :: "Game \<Rightarrow> nat option \<Rightarrow> Game" where
  "setCurrentNode g node = g\<lparr>currentNode := node\<rparr>"

text \<open>
  \<open>addBlackStone\<close> and \<open>addWhiteStone\<close> read the length of row \<open>0\<close> of the
  overlay, which panics when the overlay has no row.
\<close>

definition addBlackStone :: "GameTreeNode \<Rightarrow> int \<Rightarrow> int \<Rightarrow> GameTreeNode option" where
  "addBlackStone gtn x y =
     (if addedBlackStones gtn = [] then None
      else if x \<ge> 0 \<and> x < int (length (addedBlackStones gtn ! 0))
              \<and> y \<ge> 0 \<and> y < int (length (addedBlackStones gtn))
      then map_option (\<lambda>m. gtn\<lparr>addedBlackStones := m\<rparr>) (setCell (addedBlackStones gtn) x y True)
      else Some gtn)"

definition addWhiteStone :: "GameTreeNode \<Rightarrow> int \<Rightarrow> int \<Rightarrow> GameTreeNode option" where
  "addWhiteStone gtn x y =
     (if addedWhiteStones gtn = [] then None
      else if x \<ge> 0 \<and> x < int (length (addedWhiteStones gtn ! 0))
              \<and> y \<ge> 0 \<and> y < int (length (addedWhiteStones gtn))
      then map_option (\<lambda>m. gtn\<lparr>addedWhiteStones := m\<rparr>) (setCell (addedWhiteStones gtn) x y True)
      else Some gtn)"

section \<open>Record parser\<close>

text \<open>
  A Go string is a sequence of bytes; the record text is a \<open>string\<close> of bytes
  and \<open>p.index\<close> a position in it.  \<open>decodeRuneInString\<close> is
  \<open>utf8.DecodeRuneInString\<close>: the code point at the head of a byte string and its
  width, or \<open>(runeError, 1)\<close> where the bytes are no UTF-8 encoding.
\<close>

definition runeError :: int where
  "runeError = 65533"

definition decodeRuneInString :: "string \<Rightarrow> int \<times> nat" where
  "decodeRuneInString s =
     (case s of
        [] \<Rightarrow> (runeError, 0)
      | c0 # rest \<Rightarrow>
          let s0 = (of_char c0 :: nat) in
          if s0 < 128 then (int s0, 1)
          else if s0 < 194 \<or> s0 > 244 then (runeError, 1)
          else
            let sz = (if s0 < 224 then 2 else if s0 < 240 then 3 else 4 :: nat);
                lo = (if s0 = 224 then 160 else if s0 = 240 then 144 else 128 :: nat);
                hi = (if s0 = 237 then 159 else if s0 = 244 then 143 else 191 :: nat)
            in if length s < sz then (runeError, 1)
               else
                 let s1 = (of_char (s ! 1) :: nat) in
                 if s1 < lo \<or> hi < s1 then (runeError, 1)
                 else if sz \<le> 2 then (int ((s0 mod 32) * 64 + s1 mod 64), 2)
                 else
                   let s2 = (of_char (s ! 2) :: nat) in
                   if s2 < 128 \<or> 191 < s2 then (runeError, 1)
                   else if sz \<le> 3
                   then (int ((s0 mod 16) * 4096 + (s1 mod 64) * 64 + s2 mod 64), 3)
                   else
                     let s3 = (of_char (s ! 3) :: nat) in
                     if s3 < 128 \<or> 191 < s3 then (runeError, 1)
                     else (int ((s0 mod 8) * 262144 + (s1 mod 64) * 4096
                                + (s2 mod 64) * 64 + s3 mod 64), 4))"

lemma decodeRuneInString_width:
  assumes "s \<noteq> []"
  shows "1 \<le> snd (decodeRuneInString s) \<and> snd (decodeRuneInString s) \<le> length s"
proof -
  from assms obtain c0 rest where s: "s = c0 # rest" by (cases s) auto
  define s0 where "s0 = (of_char c0 :: nat)"
  consider (ascii) "s0 < 128" | (bad) "128 \<le> s0" "s0 < 194 \<or> s0 > 244"
    | (two) "194 \<le> s0" "s0 < 224" | (three) "224 \<le> s0" "s0 < 240"
    | (four) "240 \<le> s0" "s0 \<le> 244"
    by linarith
  then show ?thesis
  proof cases
    case ascii
    then show ?thesis by (simp add: decodeRuneInString_def s s0_def)
  next
    case bad
    then show ?thesis by (auto simp: decodeRuneInString_def s s0_def)
  next
    case two
    then show ?thesis
      by (cases "length (c0 # rest) < 2") (auto simp: decodeRuneInString_def s s0_def Let_def Suc_le_eq)
  next
    case three
    then show ?thesis
      by (cases "length (c0 # rest) < 3") (auto simp: decodeRuneInString_def s s0_def Let_def Suc_le_eq)
  next
    case four
    then show ?thesis
      by (cases "length (c0 # rest) < 4") (auto simp: decodeRuneInString_def s s0_def Let_def Suc_le_eq)
  qed
qed

text \<open>
  \<open>unicode.IsUpper\<close> is decided here for ASCII; beyond ASCII it is the table of
  the Unicode standard, which is the parameter \<open>upper\<close> of the parser.
\<close>

definition isUpperCaseLetter :: "(int \<Rightarrow> bool) \<Rightarrow> int \<Rightarrow> bool" where
  "isUpperCaseLetter upper r = (if r < 128 then 65 \<le> r \<and> r \<le> 90 else upper r)"

text \<open>
  The part of that table for the code points up to 255 (A-grave to thorn,
  without the multiplication sign), for running the parser on a given text.
\<close>

definition upperLatin1 :: "int \<Rightarrow> bool" where
  "upperLatin1 r = (192 \<le> r \<and> r \<le> 222 \<and> r \<noteq> 215)"

text \<open>Results of the parser's methods come with the final value of \<open>p.index\<close>.\<close>

definition nextRune :: "string \<Rightarrow> nat \<Rightarrow> error + (int \<times> nat)" where
  "nextRune content index =
     (if index \<ge> length content then Inl ErrEOF
      else
        let (r, sz) = decodeRuneInString (drop index content) in
        if r = runeError \<and> sz = 1 then Inl (InvalidUTF8 index) else Inr (r, sz))"

lemma nextRune_width:
  assumes "nextRune content index = Inr (r, sz)"
  shows "1 \<le> sz \<and> index + sz \<le> length content"
proof -
  from assms have lt: "index < length content"
    by (auto simp: nextRune_def split: if_splits)
  then have ne: "drop index content \<noteq> []" by simp
  from assms lt have "sz = snd (decodeRuneInString (drop index content))"
    by (auto simp: nextRune_def split: if_splits prod.splits)
  with decodeRuneInString_width [OF ne] lt show ?thesis by auto
qed

function skipWhitespace :: "string \<Rightarrow> nat \<Rightarrow> nat" where
  "skipWhitespace content index =
     (if index < length content
         \<and> (content ! index = CHR '' '' \<or> content ! index = CHR 0x0A
            \<or> content ! index = CHR 0x0D \<or> content ! index = CHR 0x09)
      then skipWhitespace content (Suc index) else index)"
  by pat_completeness auto
termination
  by (relation "measure (\<lambda>(content, index). length content - index)") auto

lemma skipWhitespace_ge: "index \<le> skipWhitespace content index"
proof (induction content index rule: skipWhitespace.induct)
  case (1 content index)
  show ?case
  proof (cases "index < length content
         \<and> (content ! index = CHR '' '' \<or> content ! index = CHR 0x0A
            \<or> content ! index = CHR 0x0D \<or> content ! index = CHR 0x09)")
    case True
    then have "Suc index \<le> skipWhitespace content (Suc index)" by (rule "1.IH")
    moreover from True have "skipWhitespace content index = skipWhitespace content (Suc index)"
      by (subst skipWhitespace.simps) simp
    ultimately show ?thesis by simp
  next
    case False
    then have "skipWhitespace content index = index"
      by (subst skipWhitespace.simps) simp
    then show ?thesis by simp
  qed
qed

declare skipWhitespace.simps [simp del]

subsection \<open>Property values\<close>

text \<open>
  \<open>parsePropValue\<close> collects the decoded runes and returns \<open>string(runes)\<close>,
  which encodes them again: the bytes it read, without the escaping backslashes.
\<close>

function parsePropValueLoop :: "string \<Rightarrow> nat \<Rightarrow> string \<Rightarrow> (error + string) \<times> nat" where
  "parsePropValueLoop content index runes =
     (if index < length content then
        (case nextRune content index of
           Inl err \<Rightarrow> (Inl err, index)
         | Inr (r, sz) \<Rightarrow>
             if r = 93 then (Inr runes, index + sz)
             else if r = 92 then
               (let index1 = index + sz in
                if index1 \<ge> length content then (Inl UnexpectedEndAfterBackslash, index1)
                else (case nextRune content index1 of
                        Inl err \<Rightarrow> (Inl err, index1)
                      | Inr (escapedRune, escSize) \<Rightarrow>
                          parsePropValueLoop content (index1 + escSize)
                            (runes @ take escSize (drop index1 content))))
             else parsePropValueLoop content (index + sz)
                    (runes @ take sz (drop index content)))
      else (Inr runes, index))"
  by pat_completeness auto
termination
proof (relation "measure (\<lambda>(content, index, runes). length content - index)", goal_cases)
  case 1
  show ?case by simp
next
  case (2 content index runes p r sz index1 q escapedRune escSize)
  then have "nextRune content index = Inr (r, sz)"
    and "nextRune content (index + sz) = Inr (escapedRune, escSize)" by simp_all
  from nextRune_width [OF this(1)] nextRune_width [OF this(2)] 2 show ?case by simp linarith
next
  case (3 content index runes p r sz)
  then have "nextRune content index = Inr (r, sz)" by simp
  from nextRune_width [OF this] 3 show ?case by simp linarith
qed

declare parsePropValueLoop.simps [simp del]

lemma parsePropValueLoop_ge: "index \<le> snd (parsePropValueLoop content index runes)"
proof (induction content index runes rule: parsePropValueLoop.induct)
  case (1 content index runes)
  show ?case
  proof (cases "index < length content")
    case False
    then show ?thesis by (subst parsePropValueLoop.simps) simp
  next
    case lt: True
    show ?thesis
    proof (cases "nextRune content index")
      case (Inl err)
      with lt show ?thesis by (subst parsePropValueLoop.simps) simp
    next
      case (Inr p)
      obtain r sz where p: "p = (r, sz)" by (cases p)
      note nr = Inr [unfolded p]
      show ?thesis
      proof (cases "r = 93")
        case True
        with lt nr show ?thesis by (subst parsePropValueLoop.simps) simp
      next
        case n93: False
        show ?thesis
        proof (cases "r = 92")
          case False
          from lt nr n93 False
          have "index + sz \<le> snd (parsePropValueLoop content (index + sz)
                  (runes @ take sz (drop index content)))"
            by (intro "1.IH"(2)[of "(r, sz)" r sz]) auto
          moreover from lt nr n93 False
          have "parsePropValueLoop content index runes
                = parsePropValueLoop content (index + sz) (runes @ take sz (drop index content))"
            by (subst parsePropValueLoop.simps) simp
          ultimately show ?thesis by simp
        next
          case r92: True
          show ?thesis
          proof (cases "index + sz \<ge> length content")
            case True
            with lt nr r92 show ?thesis by (subst parsePropValueLoop.simps) (simp add: Let_def)
          next
            case ns: False
            show ?thesis
            proof (cases "nextRune content (index + sz)")
              case (Inl err)
              with lt nr r92 ns show ?thesis
                by (subst parsePropValueLoop.simps) (simp add: Let_def)
            next
              case (Inr q)
              obtain er es where q: "q = (er, es)" by (cases q)
              note nr2 = Inr [unfolded q]
              from lt nr r92 ns nr2
              have "index + sz + es \<le> snd (parsePropValueLoop content (index + sz + es)
                      (runes @ take es (drop (index + sz) content)))"
                by (intro "1.IH"(1)[of "(r, sz)" r sz "index + sz" "(er, es)" er es]) auto
              moreover from lt nr r92 ns nr2
              have "parsePropValueLoop content index runes
                    = parsePropValueLoop content (index + sz + es)
                        (runes @ take es (drop (index + sz) content))"
                by (subst parsePropValueLoop.simps) (simp add: Let_def)
              ultimately show ?thesis by simp
            qed
          qed
        qed
      qed
    qed
  qed
qed

definition parsePropValue :: "string \<Rightarrow> nat \<Rightarrow> (error + string) \<times> nat" where
  "parsePropValue content index = parsePropValueLoop content (index + 1) []"

lemma parsePropValue_gt: "index < snd (parsePropValue content index)"
  using parsePropValueLoop_ge [of "index + 1" content "[]"]
  by (simp add: parsePropValue_def)

subsection \<open>Properties and nodes\<close>

text \<open>
  \<open>SGFNode.properties\<close> is a Go map from identifiers to value lists; the model
  is an association list with one entry per key, in order of first insertion.
\<close>

type_synonym SGFNode = "(string \<times> string list) list"

fun propSet :: "string \<Rightarrow> string list \<Rightarrow> SGFNode \<Rightarrow> SGFNode" where
  "propSet key vals [] = [(key, vals)]"
| "propSet key vals ((k, v) # rest) =
     (if k = key then (k, vals) # rest else (k, v) # propSet key vals rest)"

definition propGet :: "SGFNode \<Rightarrow> string \<Rightarrow> string list option" where
  "propGet props key = map_of props key"

datatype SGFGameTree = SGFGameTree (sequence: "SGFNode list") (subtrees: "SGFGameTree list")

function parseIdent :: "(int \<Rightarrow> bool) \<Rightarrow> string \<Rightarrow> nat \<Rightarrow> string \<Rightarrow> (error + string) \<times> nat" where
  "parseIdent upper content index ident =
     (if index < length content then
        (case nextRune content index of
           Inl err \<Rightarrow> (Inl err, index)
         | Inr (r, sz) \<Rightarrow>
             if \<not> isUpperCaseLetter upper r then (Inr ident, index)
             else parseIdent upper content (index + sz) (ident @ take sz (drop index content)))
      else (Inr ident, index))"
  by pat_completeness auto
termination
proof (relation "measure (\<lambda>(upper, content, index, ident). length content - index)", goal_cases)
  case 1
  show ?case by simp
next
  case (2 upper content index ident p r sz)
  then have "nextRune content index = Inr (r, sz)" by simp
  from nextRune_width [OF this] 2 show ?case by simp linarith
qed

declare parseIdent.simps [simp del]

lemma parseIdent_ge: "index \<le> snd (parseIdent upper content index ident)"
proof (induction upper content index ident rule: parseIdent.induct)
  case (1 upper content index ident)
  show ?case
  proof (cases "index < length content")
    case False
    then show ?thesis by (subst parseIdent.simps) simp
  next
    case lt: True
    show ?thesis
    proof (cases "nextRune content index")
      case (Inl err)
      with lt show ?thesis by (subst parseIdent.simps) simp
    next
      case (Inr p)
      obtain r sz where p: "p = (r, sz)" by (cases p)
      note nr = Inr [unfolded p]
      show ?thesis
      proof (cases "isUpperCaseLetter upper r")
        case False
        with lt nr show ?thesis by (subst parseIdent.simps) simp
      next
        case True
        with lt nr
        have "index + sz \<le> snd (parseIdent upper content (index + sz)
                (ident @ take sz (drop index content)))"
          by (intro "1.IH"[of "(r, sz)" r sz]) auto
        moreover from lt nr True
        have "parseIdent upper content index ident
              = parseIdent upper content (index + sz) (ident @ take sz (drop index content))"
          by (subst parseIdent.simps) simp
        ultimately show ?thesis by simp
      qed
    qed
  qed
qed

lemma parseIdent_gt:
  assumes "nextRune content index = Inr (r, sz)" and "isUpperCaseLetter upper r"
  shows "index < snd (parseIdent upper content index ident)"
proof -
  from nextRune_width [OF assms(1)] have w: "1 \<le> sz" "index + sz \<le> length content" by simp_all
  then have lt: "index < length content" by simp
  from lt assms
  have "parseIdent upper content index ident
        = parseIdent upper content (index + sz) (ident @ take sz (drop index content))"
    by (subst parseIdent.simps) simp
  moreover have "index + sz \<le> snd (parseIdent upper content (index + sz)
      (ident @ take sz (drop index content)))"
    by (rule parseIdent_ge)
  ultimately show ?thesis using w by simp
qed

function parseValues :: "string \<Rightarrow> nat \<Rightarrow> string list \<Rightarrow> (error + string list) \<times> nat" where
  "parseValues content index vals =
     (if index < length content then
        (case nextRune content index of
           Inl err \<Rightarrow> (Inl err, index)
         | Inr (r, sz) \<Rightarrow>
             if r \<noteq> 91 then (Inr vals, index)
             else (case parsePropValue content index of
                     (Inl err, index') \<Rightarrow> (Inl err, index')
                   | (Inr val, index') \<Rightarrow> parseValues content index' (vals @ [val])))
      else (Inr vals, index))"
  by pat_completeness auto
termination
proof (relation "measure (\<lambda>(content, index, vals). length content - index)", goal_cases)
  case 1
  show ?case by simp
next
  case (2 content index vals p r sz res index' val)
  then have "index' = snd (parsePropValue content index)" by (metis snd_conv)
  with parsePropValue_gt [of index content] 2 show ?case by simp
qed

declare parseValues.simps [simp del]

lemma parseValues_ge: "index \<le> snd (parseValues content index vals)"
proof (induction content index vals rule: parseValues.induct)
  case (1 content index vals)
  show ?case
  proof (cases "index < length content")
    case False
    then show ?thesis by (subst parseValues.simps) simp
  next
    case lt: True
    show ?thesis
    proof (cases "nextRune content index")
      case (Inl err)
      with lt show ?thesis by (subst parseValues.simps) simp
    next
      case (Inr p)
      obtain r sz where p: "p = (r, sz)" by (cases p)
      note nr = Inr [unfolded p]
      show ?thesis
      proof (cases "r \<noteq> 91")
        case True
        with lt nr show ?thesis by (subst parseValues.simps) simp
      next
        case False
        obtain res index' where pv: "parsePropValue content index = (res, index')"
          by (cases "parsePropValue content index")
        with parsePropValue_gt [of index content] have gt: "index < index'" by simp
        show ?thesis
        proof (cases res)
          case (Inl err)
          with lt nr False pv gt show ?thesis by (subst parseValues.simps) simp
        next
          case (Inr val)
          with lt nr False pv
          have "index' \<le> snd (parseValues content index' (vals @ [val]))"
            by (intro "1.IH"[of "(r, sz)" r sz res index' val]) auto
          moreover from lt nr False pv Inr
          have "parseValues content index vals = parseValues content index' (vals @ [val])"
            by (subst parseValues.simps) simp
          ultimately show ?thesis using gt by simp
        qed
      qed
    qed
  qed
qed

definition parseProperty :: "(int \<Rightarrow> bool) \<Rightarrow> string \<Rightarrow> nat
    \<Rightarrow> (error + string \<times> string list) \<times> nat" where
  "parseProperty upper content index =
     (case parseIdent upper content index [] of
        (Inl err, index1) \<Rightarrow> (Inl err, index1)
      | (Inr ident, index1) \<Rightarrow>
          (case parseValues content index1 [] of
             (Inl err, index2) \<Rightarrow> (Inl err, index2)
           | (Inr vals, index2) \<Rightarrow> (Inr (ident, vals), index2)))"

lemma parseProperty_gt:
  assumes "nextRune content index = Inr (r, sz)" and "isUpperCaseLetter upper r"
  shows "index < snd (parseProperty upper content index)"
proof -
  obtain res1 index1 where pi: "parseIdent upper content index [] = (res1, index1)"
    by (cases "parseIdent upper content index []")
  with parseIdent_gt [OF assms, of "[]"] have g1: "index < index1" by simp
  show ?thesis
  proof (cases res1)
    case (Inl err)
    with pi g1 show ?thesis by (simp add: parseProperty_def)
  next
    case (Inr ident)
    obtain res2 index2 where pv: "parseValues content index1 [] = (res2, index2)"
      by (cases "parseValues content index1 []")
    with parseValues_ge [of index1 content "[]"] have "index1 \<le> index2" by simp
    with g1 pi Inr pv show ?thesis by (cases res2) (simp_all add: parseProperty_def)
  qed
qed

text \<open>The loop of \<open>parseNode\<close>, entered after the \<open>;\<close> is skipped.\<close>

function parseNodeLoop :: "(int \<Rightarrow> bool) \<Rightarrow> string \<Rightarrow> nat \<Rightarrow> SGFNode \<Rightarrow> (error + SGFNode) \<times> nat" where
  "parseNodeLoop upper content index properties =
     (let index0 = skipWhitespace content index in
      if index0 \<ge> length content then (Inr properties, index0)
      else (case nextRune content index0 of
              Inl err \<Rightarrow> (Inl err, index0)
            | Inr (r, sz) \<Rightarrow>
                if \<not> isUpperCaseLetter upper r then (Inr properties, index0)
                else (case parseProperty upper content index0 of
                        (Inl err, index') \<Rightarrow> (Inl err, index')
                      | (Inr (ident, vals), index') \<Rightarrow>
                          parseNodeLoop upper content index' (propSet ident vals properties))))"
  by pat_completeness auto
termination
proof (relation "measure (\<lambda>(upper, content, index, properties). length content - index)", goal_cases)
  case 1
  show ?case by simp
next
  case (2 upper content index properties index0 p r sz res index' iv ident vals)
  then have nr: "nextRune content (skipWhitespace content index) = Inr (r, sz)"
    and up: "isUpperCaseLetter upper r" by simp_all
  from 2 have i': "index' = snd (parseProperty upper content (skipWhitespace content index))"
    by (metis snd_conv)
  from parseProperty_gt [OF nr up] i' have "skipWhitespace content index < index'" by simp
  with skipWhitespace_ge [of index content] have "index < index'" by simp
  moreover from skipWhitespace_ge [of index content] 2 have "index < length content" by simp
  ultimately show ?case by simp
qed

declare parseNodeLoop.simps [simp del]

definition parseNode :: "(int \<Rightarrow> bool) \<Rightarrow> string \<Rightarrow> nat \<Rightarrow> (error + SGFNode) \<times> nat" where
  "parseNode upper content index = parseNodeLoop upper content (index + 1) []"

lemma parseNodeLoop_ge: "index \<le> snd (parseNodeLoop upper content index properties)"
proof (induction upper content index properties rule: parseNodeLoop.induct)
  case (1 upper content index properties)
  define index0 where "index0 = skipWhitespace content index"
  have i0: "index \<le> index0" unfolding index0_def by (rule skipWhitespace_ge)
  show ?case
  proof (cases "index0 \<ge> length content")
    case True
    with i0 show ?thesis by (subst parseNodeLoop.simps) (simp add: Let_def index0_def)
  next
    case lt: False
    show ?thesis
    proof (cases "nextRune content index0")
      case (Inl err)
      with lt i0 show ?thesis by (subst parseNodeLoop.simps) (simp add: Let_def index0_def)
    next
      case (Inr p)
      obtain r sz where p: "p = (r, sz)" by (cases p)
      note nr = Inr [unfolded p]
      show ?thesis
      proof (cases "isUpperCaseLetter upper r")
        case False
        with lt nr i0 show ?thesis by (subst parseNodeLoop.simps) (simp add: Let_def index0_def)
      next
        case True
        obtain res index' where pp: "parseProperty upper content index0 = (res, index')"
          by (cases "parseProperty upper content index0")
        with parseProperty_gt [OF nr True] have gt: "index0 < index'" by simp
        show ?thesis
        proof (cases res)
          case (Inl err)
          with lt nr True pp gt i0 show ?thesis
            by (subst parseNodeLoop.simps) (simp add: Let_def index0_def)
        next
          case (Inr iv)
          obtain ident vals where iv: "iv = (ident, vals)" by (cases iv)
          from lt nr True pp Inr iv
          have "index' \<le> snd (parseNodeLoop upper content index' (propSet ident vals properties))"
            by (intro "1.IH"[of index0 "(r, sz)" r sz res index' iv ident vals])
               (auto simp: index0_def)
          moreover from lt nr True pp Inr iv
          have "parseNodeLoop upper content index properties
                = parseNodeLoop upper content index' (propSet ident vals properties)"
            by (subst parseNodeLoop.simps) (simp add: Let_def index0_def)
          ultimately show ?thesis using gt i0 by simp
        qed
      qed
    qed
  qed
qed

lemma parseNode_gt: "index < snd (parseNode upper content index)"
  using parseNodeLoop_ge [of "index + 1" upper content "[]"]
  by (simp add: parseNode_def)

subsection \<open>Sequences, game trees and the collection\<close>

function parseSequence :: "(int \<Rightarrow> bool) \<Rightarrow> string \<Rightarrow> nat \<Rightarrow> SGFNode list
    \<Rightarrow> (error + SGFNode list) \<times> nat" where
  "parseSequence upper content index nodes =
     (if index < length content \<and> content ! index = CHR '';'' then
        (case parseNode upper content index of
           (Inl err, index') \<Rightarrow> (Inl err, index')
         | (Inr node, index') \<Rightarrow> parseSequence upper content index' (nodes @ [node]))
      else (Inr nodes, index))"
  by pat_completeness auto
termination
proof (relation "measure (\<lambda>(upper, content, index, nodes). length content - index)", goal_cases)
  case 1
  show ?case by simp
next
  case (2 upper content index nodes res index' node)
  then have "index' = snd (parseNode upper content index)" by (metis snd_conv)
  with parseNode_gt [of index upper content] have "index < index'" by simp
  moreover from 2 have "index < length content" by simp
  ultimately show ?case by simp
qed

declare parseSequence.simps [simp del]

lemma parseSequence_ge: "index \<le> snd (parseSequence upper content index nodes)"
proof (induction upper content index nodes rule: parseSequence.induct)
  case (1 upper content index nodes)
  show ?case
  proof (cases "index < length content \<and> content ! index = CHR '';''")
    case False
    then show ?thesis by (subst parseSequence.simps) auto
  next
    case True
    obtain res index' where pn: "parseNode upper content index = (res, index')"
      by (cases "parseNode upper content index")
    with parseNode_gt [of index upper content] have gt: "index < index'" by simp
    show ?thesis
    proof (cases res)
      case (Inl err)
      with True pn gt show ?thesis by (subst parseSequence.simps) simp
    next
      case (Inr node)
      with True pn have "index' \<le> snd (parseSequence upper content index' (nodes @ [node]))"
        by (intro "1.IH"[of res index' node]) auto
      moreover from True pn Inr
      have "parseSequence upper content index nodes
            = parseSequence upper content index' (nodes @ [node])"
        by (subst parseSequence.simps) simp
      ultimately show ?thesis using gt by simp
    qed
  qed
qed

text \<open>
  \<open>parseGameTree\<close> is entered after the opening parenthesis is consumed.
  \<open>parseSubtrees\<close> is its loop over the variations that follow the sequence.
\<close>

function parseGameTree :: "(int \<Rightarrow> bool) \<Rightarrow> string \<Rightarrow> nat \<Rightarrow> (error + SGFGameTree) \<times> nat"
  and parseSubtrees :: "(int \<Rightarrow> bool) \<Rightarrow> string \<Rightarrow> nat \<Rightarrow> SGFGameTree list
    \<Rightarrow> (error + SGFGameTree list) \<times> nat" where
  "parseGameTree upper content index =
     (case parseSequence upper content index [] of
        (Inl err, index1) \<Rightarrow> (Inl err, index1)
      | (Inr nodes, index1) \<Rightarrow>
          (case parseSubtrees upper content index1 [] of
             (Inl err, index2) \<Rightarrow> (Inl err, index2)
           | (Inr trees, index2) \<Rightarrow>
               let index3 = skipWhitespace content index2 in
               if index3 < length content then
                 (if content ! index3 = CHR '')''
                  then (Inr (SGFGameTree nodes trees), index3 + 1)
                  else (Inl (ExpectedCloseFound index3 (content ! index3)), index3))
               else (Inl ExpectedCloseAtEnd, index3)))"
| "parseSubtrees upper content index trees =
     (let index0 = skipWhitespace content index in
      if index0 < length content \<and> content ! index0 = CHR ''(''
      then (case parseGameTree upper content (index0 + 1) of
              (Inl err, index') \<Rightarrow> (Inl err, index')
            | (Inr subtree, index') \<Rightarrow> parseSubtrees upper content index' (trees @ [subtree]))
      else (Inr trees, index0))"
  by pat_completeness auto


lemma parseGameTree_ge_dom:
  "parseGameTree_parseSubtrees_dom (Inl (upper, content, index)) \<Longrightarrow>
   index \<le> snd (parseGameTree upper content index)"
  "parseGameTree_parseSubtrees_dom (Inr (upper, content, index, trees)) \<Longrightarrow>
   index \<le> snd (parseSubtrees upper content index trees)"
proof (induction upper content index and upper content index trees
    rule: parseGameTree_parseSubtrees.pinduct)
  case (1 upper content index)
  note eq = parseGameTree.psimps [OF "1.hyps"]
  obtain res1 index1 where ps: "parseSequence upper content index [] = (res1, index1)"
    by (cases "parseSequence upper content index []")
  with parseSequence_ge [of index upper content "[]"] have g1: "index \<le> index1" by simp
  show ?case
  proof (cases res1)
    case (Inl err)
    with ps g1 show ?thesis by (simp add: eq)
  next
    case (Inr nodes)
    obtain res2 index2 where pt: "parseSubtrees upper content index1 [] = (res2, index2)"
      by (cases "parseSubtrees upper content index1 []")
    from ps Inr have "index1 \<le> snd (parseSubtrees upper content index1 [])"
      by (intro "1.IH"[of res1 index1 nodes]) auto
    with pt have g2: "index1 \<le> index2" by simp
    show ?thesis
    proof (cases res2)
      case (Inl err)
      with ps Inr pt g1 g2 show ?thesis by (simp add: eq)
    next
      case r2: (Inr trees)
      have "index2 \<le> skipWhitespace content index2" by (rule skipWhitespace_ge)
      with ps Inr pt r2 g1 g2 show ?thesis by (simp add: eq Let_def)
    qed
  qed
next
  case (2 upper content index trees)
  note eq = parseSubtrees.psimps [OF "2.hyps"]
  define index0 where "index0 = skipWhitespace content index"
  have i0: "index \<le> index0" unfolding index0_def by (rule skipWhitespace_ge)
  show ?case
  proof (cases "index0 < length content \<and> content ! index0 = CHR ''(''")
    case False
    with i0 show ?thesis by (auto simp: eq Let_def index0_def)
  next
    case True
    obtain res index' where pg: "parseGameTree upper content (index0 + 1) = (res, index')"
      by (cases "parseGameTree upper content (index0 + 1)")
    from True have "index0 + 1 \<le> snd (parseGameTree upper content (index0 + 1))"
      by (intro "2.IH"(1)[of index0]) (auto simp: index0_def)
    with pg have gt: "index0 + 1 \<le> index'" by simp
    show ?thesis
    proof (cases res)
      case (Inl err)
      with True pg gt i0 show ?thesis by (simp add: eq Let_def index0_def)
    next
      case (Inr subtree)
      with True pg have "index' \<le> snd (parseSubtrees upper content index' (trees @ [subtree]))"
        by (intro "2.IH"(2)[of index0 res index' subtree]) (auto simp: index0_def)
      with True pg Inr gt i0 show ?thesis by (simp add: eq Let_def index0_def)
    qed
  qed
qed

lemma parseGameTree_total: "All parseGameTree_parseSubtrees_dom"
proof (relation "inv_image (less_than <*lex*> less_than)
    (\<lambda>a. case a of
       Inl (upper, content, index) \<Rightarrow> (length content - index, 1)
     | Inr (upper, content, index, trees) \<Rightarrow> (length content - index, 0))",
    goal_cases)
  case 1
  show ?case by (intro wf_inv_image wf_lex_prod wf_less_than)
next
  case (2 upper content index res index1 nodes)
  then have "index1 = snd (parseSequence upper content index [])" by (metis snd_conv)
  with parseSequence_ge [of index upper content "[]"] have "index \<le> index1" by simp
  then have "length content - index1 \<le> length content - index" by simp
  then show ?case by auto
next
  case (3 upper content index trees index0)
  with skipWhitespace_ge [of index content] have "index \<le> index0" "index0 < length content"
    by simp_all
  then show ?case by simp
next
  case (4 upper content index trees index0 res index' subtree)
  then have "index' = snd (parseGameTree upper content (index0 + 1))" by (metis snd_conv)
  with parseGameTree_ge_dom(1) [of upper content "index0 + 1"] 4 have "index0 + 1 \<le> index'"
    by simp
  moreover from 4 skipWhitespace_ge [of index content]
  have "index \<le> index0" "index0 < length content" by simp_all
  ultimately show ?case by simp
qed

termination parseGameTree
  by (rule parseGameTree_total)

declare parseGameTree.simps [simp del] parseSubtrees.simps [simp del]

lemma parseGameTree_ge: "index \<le> snd (parseGameTree upper content index)"
  using parseGameTree_total by (intro parseGameTree_ge_dom(1)) simp

function parseCollection :: "(int \<Rightarrow> bool) \<Rightarrow> string \<Rightarrow> nat \<Rightarrow> SGFGameTree list
    \<Rightarrow> (error + SGFGameTree list) \<times> nat" where
  "parseCollection upper content index collection =
     (if index < length content then
        (let index0 = skipWhitespace content index in
         if index0 < length content \<and> content ! index0 = CHR ''(''
         then (case parseGameTree upper content (index0 + 1) of
                 (Inl err, index') \<Rightarrow> (Inl err, index')
               | (Inr gameTree, index') \<Rightarrow>
                   parseCollection upper content index' (collection @ [gameTree]))
         else parseCollection upper content (index0 + 1) collection)
      else (Inr collection, index))"
  by pat_completeness auto
termination
proof (relation "measure (\<lambda>(upper, content, index, collection). length content - index)",
    goal_cases)
  case 1
  show ?case by simp
next
  case (2 upper content index collection index0 res index' gameTree)
  then have "index' = snd (parseGameTree upper content (index0 + 1))" by (metis snd_conv)
  with parseGameTree_ge [of "index0 + 1" upper content] have "index0 + 1 \<le> index'" by simp
  moreover from 2 skipWhitespace_ge [of index content] have "index \<le> index0" by simp
  ultimately have "index < index'" by simp
  moreover from 2 have "index < length content" by simp
  ultimately show ?case by simp
next
  case (3 upper content index collection index0)
  with skipWhitespace_ge [of index content] have "index \<le> index0" by simp
  with 3 show ?case by simp
qed

declare parseCollection.simps [simp del]

subsection \<open>The balance check and \<open>parseSGF\<close>\<close>

text \<open>
  \<open>validateSGF\<close> ranges over the runes of the text: \<open>i\<close> is the byte index of a
  rune and the next rune starts after its width.  The line it prints on success
  is no part of the state.
\<close>

function validateLoop :: "string \<Rightarrow> nat \<Rightarrow> int \<Rightarrow> error option" where
  "validateLoop content i openParens =
     (if i < length content then
        (let (char, w) = decodeRuneInString (drop i content) in
         if char = 40 then validateLoop content (i + w) (openParens + 1)
         else if char = 41 then
           (if openParens - 1 < 0 then Some (UnmatchedClose i)
            else validateLoop content (i + w) (openParens - 1))
         else validateLoop content (i + w) openParens)
      else if openParens \<noteq> 0 then Some UnmatchedOpen else None)"
  by pat_completeness auto
termination
proof (relation "measure (\<lambda>(content, i, openParens). length content - i)", goal_cases)
  case 1
  show ?case by simp
next
  case (2 content i openParens p char w)
  then have "w = snd (decodeRuneInString (drop i content))" by (metis snd_conv)
  with decodeRuneInString_width [of "drop i content"] 2 show ?case by simp linarith
next
  case (3 content i openParens p char w)
  then have "w = snd (decodeRuneInString (drop i content))" by (metis snd_conv)
  with decodeRuneInString_width [of "drop i content"] 3 show ?case by simp linarith
next
  case (4 content i openParens p char w)
  then have "w = snd (decodeRuneInString (drop i content))" by (metis snd_conv)
  with decodeRuneInString_width [of "drop i content"] 4 show ?case by simp linarith
qed

declare validateLoop.simps [simp del]

definition validateSGF :: "string \<Rightarrow> error option" where
  "validateSGF content = validateLoop content 0 0"

definition parseSGF :: "(int \<Rightarrow> bool) \<Rightarrow> string \<Rightarrow> error + SGFGameTree list" where
  "parseSGF upper sgfContent =
     (case validateSGF sgfContent of
        Some err \<Rightarrow> Inl err
      | None \<Rightarrow>
          (case parseCollection upper sgfContent 0 [] of
             (Inl err, index) \<Rightarrow> Inl (ParseErrorAt index err)
           | (Inr collection, index) \<Rightarrow> Inr collection))"

section \<open>Building a game from a parsed record\<close>

subsection \<open>Library functions on strings\<close>

text \<open>
  \<open>strings.Split(s, ":")\<close> and \<open>strings.SplitN(s, ":", 2)\<close> for the one-byte
  separator the source passes.
\<close>

fun splitOn :: "char \<Rightarrow> string \<Rightarrow> string list" where
  "splitOn sep [] = [[]]"
| "splitOn sep (c # cs) =
     (if c = sep then [] # splitOn sep cs
      else (case splitOn sep cs of
              [] \<Rightarrow> [[c]]
            | p # ps \<Rightarrow> (c # p) # ps))"

fun splitFirst :: "char \<Rightarrow> string \<Rightarrow> string list" where
  "splitFirst sep s =
     (if sep \<in> set s then [takeWhile (\<lambda>c. c \<noteq> sep) s, tl (dropWhile (\<lambda>c. c \<noteq> sep) s)]
      else [s])"

text \<open>
  \<open>strconv.Atoi\<close>: an optional sign and decimal digits, within the range of a
  64-bit \<open>int\<close>; anything else is an error.
\<close>

definition isDigit :: "char \<Rightarrow> bool" where
  "isDigit c = (48 \<le> (of_char c :: nat) \<and> (of_char c :: nat) \<le> 57)"

fun digitsValue :: "string \<Rightarrow> nat \<Rightarrow> nat" where
  "digitsValue [] n = n"
| "digitsValue (c # cs) n = digitsValue cs (n * 10 + (of_char c - 48))"

definition atoi :: "string \<Rightarrow> error + int" where
  "atoi s =
     (case s of
        [] \<Rightarrow> Inl (AtoiError s)
      | c # cs \<Rightarrow>
          let neg = (c = CHR ''-'');
              ds = (if c = CHR ''-'' \<or> c = CHR ''+'' then cs else s)
          in if ds = [] \<or> \<not> list_all isDigit ds then Inl (AtoiError s)
             else
               let n = int (digitsValue ds 0) in
               if neg then (if n > 9223372036854775808 then Inl (AtoiError s) else Inr (- n))
               else (if n > 9223372036854775807 then Inl (AtoiError s) else Inr n))"

subsection \<open>The move data of a node\<close>

text \<open>
  A \<open>Move\<close> is the triple of its \<open>x\<close>, \<open>y\<close> and \<open>player\<close>.  The fields of
  \<open>MoveData\<close> carry the prefix \<open>md\<close>; its label map is an association list
  with one entry per point string.
\<close>

type_synonym Move = "int \<times> int \<times> string"

record MoveData =
  mdMove :: "Move option"
  mdPass :: bool
  mdAddedBlackStones :: "string list"
  mdAddedWhiteStones :: "string list"
  mdAddedEmptyPoints :: "string list"
  mdCR :: "string list"
  mdSQ :: "string list"
  mdTR :: "string list"
  mdMA :: "string list"
  mdLB :: "(string \<times> string) list"

definition createMoveFromCoord :: "string \<Rightarrow> string \<Rightarrow> Move option" where
  "createMoveFromCoord coord player =
     (if coord = '''' then Some (-1, -1, player)
      else (case convertSGFCoordToXY coord of
              Some (x, y) \<Rightarrow> Some (x, y, player)
            | None \<Rightarrow> None))"

fun labelSet :: "string \<Rightarrow> string \<Rightarrow> (string \<times> string) list \<Rightarrow> (string \<times> string) list" where
  "labelSet key val [] = [(key, val)]"
| "labelSet key val ((k, v) # rest) =
     (if k = key then (k, val) # rest else (k, v) # labelSet key val rest)"

fun collectLabels :: "string list \<Rightarrow> (string \<times> string) list \<Rightarrow> (string \<times> string) list" where
  "collectLabels [] labels = labels"
| "collectLabels (lb # lbs) labels =
     (let parts = splitFirst CHR '':'' lb in
      if length parts = 2 then collectLabels lbs (labelSet (parts ! 0) (parts ! 1) labels)
      else collectLabels lbs labels)"

definition propList :: "SGFNode \<Rightarrow> string \<Rightarrow> string list" where
  "propList nodeProperties key = (case propGet nodeProperties key of Some vs \<Rightarrow> vs | None \<Rightarrow> [])"

text \<open>
  The properties of a parsed node are never a \<open>nil\<close> map, so the error return of
  \<open>extractMoveFromNode\<close> has no branch here.
\<close>

definition extractMoveFromNode :: "SGFNode \<Rightarrow> MoveData" where
  "extractMoveFromNode nodeProperties =
     (let mv0 = None;
          mv1 = (case propGet nodeProperties ''B'' of
                   Some bProp \<Rightarrow>
                     createMoveFromCoord (if length bProp > 0 then bProp ! 0 else '''') black
                 | None \<Rightarrow> mv0);
          mv2 = (case propGet nodeProperties ''W'' of
                   Some wProp \<Rightarrow>
                     createMoveFromCoord (if length wProp > 0 then wProp ! 0 else '''') white
                 | None \<Rightarrow> mv1)
      in \<lparr>mdMove = mv2,
          mdPass = (case mv2 of Some (x, y, player) \<Rightarrow> x = -1 \<and> y = -1 | None \<Rightarrow> False),
          mdAddedBlackStones = propList nodeProperties ''AB'',
          mdAddedWhiteStones = propList nodeProperties ''AW'',
          mdAddedEmptyPoints = propList nodeProperties ''AE'',
          mdCR = propList nodeProperties ''CR'',
          mdSQ = propList nodeProperties ''SQ'',
          mdTR = propList nodeProperties ''TR'',
          mdMA = propList nodeProperties ''MA'',
          mdLB = collectLabels (propList nodeProperties ''LB'') []\<rparr>)"

subsection \<open>Nodes of a variation\<close>

text \<open>
  The functions below write the new node and its board through pointers; the
  model edits the node as a value and stores it when the loop body ends.  A
  function that can fail after it has written returns the error together with
  the state it leaves (\<open>None\<close> at the outside is a panic).
\<close>

fun applyAddedBlack :: "string list \<Rightarrow> GameTreeNode \<Rightarrow> GameTreeNode option" where
  "applyAddedBlack [] n = Some n"
| "applyAddedBlack (coord # coords) n =
     (case convertSGFCoordToXY coord of
        None \<Rightarrow> applyAddedBlack coords n
      | Some (x, y) \<Rightarrow>
          (case setCell (boardState n) x y black of
             None \<Rightarrow> None
           | Some b \<Rightarrow>
               (case addBlackStone (n\<lparr>boardState := b\<rparr>) x y of
                  None \<Rightarrow> None
                | Some n' \<Rightarrow> applyAddedBlack coords n')))"

fun applyAddedWhite :: "string list \<Rightarrow> GameTreeNode \<Rightarrow> GameTreeNode option" where
  "applyAddedWhite [] n = Some n"
| "applyAddedWhite (coord # coords) n =
     (case convertSGFCoordToXY coord of
        None \<Rightarrow> applyAddedWhite coords n
      | Some (x, y) \<Rightarrow>
          (case setCell (boardState n) x y white of
             None \<Rightarrow> None
           | Some b \<Rightarrow>
               (case addWhiteStone (n\<lparr>boardState := b\<rparr>) x y of
                  None \<Rightarrow> None
                | Some n' \<Rightarrow> applyAddedWhite coords n')))"

text \<open>The loop of \<open>processMainLine\<close> over \<open>AW\<close> writes the board only.\<close>

fun applyAddedWhiteBoardOnly :: "string list \<Rightarrow> GameTreeNode \<Rightarrow> GameTreeNode option" where
  "applyAddedWhiteBoardOnly [] n = Some n"
| "applyAddedWhiteBoardOnly (coord # coords) n =
     (case convertSGFCoordToXY coord of
        None \<Rightarrow> applyAddedWhiteBoardOnly coords n
      | Some (x, y) \<Rightarrow>
          (case setCell (boardState n) x y white of
             None \<Rightarrow> None
           | Some b \<Rightarrow> applyAddedWhiteBoardOnly coords (n\<lparr>boardState := b\<rparr>)))"

fun applyAddedEmpty :: "string list \<Rightarrow> GameTreeNode \<Rightarrow> GameTreeNode option" where
  "applyAddedEmpty [] n = Some n"
| "applyAddedEmpty (coord # coords) n =
     (case convertSGFCoordToXY coord of
        None \<Rightarrow> applyAddedEmpty coords n
      | Some (x, y) \<Rightarrow>
          (case setCell (boardState n) x y empty_cell of
             None \<Rightarrow> None
           | Some b \<Rightarrow>
               (case setCell (AE n) x y True of
                  None \<Rightarrow> None
                | Some m \<Rightarrow> applyAddedEmpty coords (n\<lparr>boardState := b, AE := m\<rparr>))))"

text \<open>
  The four annotation loops of \<open>processSequence\<close> differ in the overlay they
  write.  They index the result of \<open>convertSGFCoordToXY\<close> without a \<open>nil\<close>
  check, so an invalid coordinate panics.
\<close>

fun markAll :: "Game \<Rightarrow> string list \<Rightarrow> bool list list \<Rightarrow> bool list list option" where
  "markAll g [] m = Some m"
| "markAll g (coord # coords) m =
     (case convertSGFCoordToXY coord of
        None \<Rightarrow> None
      | Some (x, y) \<Rightarrow>
          if x \<ge> 0 \<and> y \<ge> 0 \<and> x < gSizeX g \<and> y < gSizeY g
          then (case setCell m x y True of
                  None \<Rightarrow> None
                | Some m' \<Rightarrow> markAll g coords m')
          else markAll g coords m)"

fun labelAll :: "Game \<Rightarrow> (string \<times> string) list \<Rightarrow> string list list \<Rightarrow> string list list option" where
  "labelAll g [] m = Some m"
| "labelAll g ((coord, label) # rest) m =
     (case convertSGFCoordToXY coord of
        None \<Rightarrow> None
      | Some (x, y) \<Rightarrow>
          if x \<ge> 0 \<and> y \<ge> 0 \<and> x < gSizeX g \<and> y < gSizeY g
          then (case setCell m x y label of
                  None \<Rightarrow> None
                | Some m' \<Rightarrow> labelAll g rest m')
          else labelAll g rest m)"

text \<open>
  The part of a loop body that both \<open>processMainLine\<close> and \<open>processSequence\<close>
  start with: the new node with the copy of the parent's board, filed among the
  parent's children, and the move played on it.
\<close>

definition newChildWithMove :: "Game \<Rightarrow> MoveData \<Rightarrow> nat \<Rightarrow> (Game \<times> nat \<times> GameTreeNode) option" where
  "newChildWithMove g moveData currentParent =
     (case getNode g (Some currentParent) of
        None \<Rightarrow> None
      | Some parentNode \<Rightarrow>
          let newBoardState = copyBoard (boardState parentNode) in
          (case newGameTreeNode g of
             None \<Rightarrow> None
           | Some (g1, a) \<Rightarrow>
               let n0 = (heap g1 ! a)\<lparr>boardState := newBoardState, parent := Some currentParent,
                          nodePlayer := (case mdMove moveData of
                                           Some (x, y, player) \<Rightarrow> player
                                         | None \<Rightarrow> nodePlayer parentNode)\<rparr>;
                   g2 = setNode g1 currentParent
                          (parentNode\<lparr>children := children parentNode @ [a]\<rparr>)
               in (case mdMove moveData of
                     Some (x, y, player) \<Rightarrow>
                       if x \<ge> 0 \<and> y \<ge> 0 then
                         (case setCell newBoardState x y player of
                            None \<Rightarrow> None
                          | Some placed \<Rightarrow>
                              (case captureStones g2 placed x y player of
                                 None \<Rightarrow> None
                               | Some (b, kx, ky) \<Rightarrow>
                                   Some (g2, a, n0\<lparr>boardState := b, koX := kx, koY := ky,
                                                   move := (x, y)\<rparr>)))
                       else Some (g2, a, n0\<lparr>move := (-1, -1)\<rparr>)
                   | None \<Rightarrow> Some (g2, a, n0\<lparr>move := (93, 93)\<rparr>))))"

definition commentOf :: "SGFNode \<Rightarrow> string \<Rightarrow> string" where
  "commentOf nodeProperties old =
     (case propGet nodeProperties ''C'' of
        Some commentProps \<Rightarrow> if length commentProps > 0 then commentProps ! 0 else old
      | None \<Rightarrow> old)"

definition sequenceStep :: "Game \<Rightarrow> SGFNode \<Rightarrow> nat \<Rightarrow> (Game \<times> nat) option" where
  "sequenceStep g nodeProperties currentParent = do {
     let moveData = extractMoveFromNode nodeProperties;
     (g2, a, n1) \<leftarrow> newChildWithMove g moveData currentParent;
     n2 \<leftarrow> applyAddedBlack (mdAddedBlackStones moveData) n1;
     n3 \<leftarrow> applyAddedWhite (mdAddedWhiteStones moveData) n2;
     n4 \<leftarrow> applyAddedEmpty (mdAddedEmptyPoints moveData) n3;
     cr \<leftarrow> markAll g2 (mdCR moveData) (CR n4);
     sq \<leftarrow> markAll g2 (mdSQ moveData) (SQ n4);
     tr \<leftarrow> markAll g2 (mdTR moveData) (TR n4);
     ma \<leftarrow> markAll g2 (mdMA moveData) (MA n4);
     lb \<leftarrow> labelAll g2 (mdLB moveData) (LB n4);
     let n5 = n4\<lparr>CR := cr, SQ := sq, TR := tr, MA := ma, LB := lb,
                 Comment := commentOf nodeProperties (Comment n4)\<rparr>;
     Some (setNode g2 a n5, a)
   }"

fun processSequenceLoop :: "Game \<Rightarrow> SGFNode list \<Rightarrow> nat \<Rightarrow> Game option" where
  "processSequenceLoop g [] currentParent = Some g"
| "processSequenceLoop g (nodeProperties # rest) currentParent =
     (case sequenceStep g nodeProperties currentParent of
        None \<Rightarrow> None
      | Some (g1, newNode) \<Rightarrow> processSequenceLoop g1 rest newNode)"

text \<open>A sequence without nodes is the \<open>nil\<close> slice the parser leaves.\<close>

definition processSequence :: "Game \<Rightarrow> SGFNode list \<Rightarrow> nat option \<Rightarrow> (error option \<times> Game) option" where
  "processSequence g nodeSeq parentNode =
     (case parentNode of
        None \<Rightarrow> Some (Some InvalidSequence, g)
      | Some currentParent \<Rightarrow>
          if nodeSeq = [] then Some (Some InvalidSequence, g)
          else map_option (\<lambda>g'. (None, g')) (processSequenceLoop g nodeSeq currentParent))"

fun processSubtree :: "Game \<Rightarrow> SGFGameTree \<Rightarrow> nat option \<Rightarrow> (error option \<times> Game) option"
  and processSubtreeLoop :: "Game \<Rightarrow> SGFGameTree list \<Rightarrow> nat option
    \<Rightarrow> (error option \<times> Game) option" where
  "processSubtree g (SGFGameTree nodeSeq trees) parentNode =
     (case parentNode of
        None \<Rightarrow> Some (Some NilParent, g)
      | Some currentParent \<Rightarrow>
          (case processSequence g nodeSeq (Some currentParent) of
             None \<Rightarrow> None
           | Some (Some err, g1) \<Rightarrow> Some (Some err, g1)
           | Some (None, g1) \<Rightarrow> processSubtreeLoop g1 trees (Some currentParent)))"
| "processSubtreeLoop g [] currentParent = Some (None, g)"
| "processSubtreeLoop g (subtree # rest) currentParent =
     (case processSubtree g subtree currentParent of
        None \<Rightarrow> None
      | Some (Some err, g1) \<Rightarrow> Some (Some err, g1)
      | Some (None, g1) \<Rightarrow> processSubtreeLoop g1 rest currentParent)"

subsection \<open>The main line\<close>

definition mainLineStep :: "Game \<Rightarrow> SGFNode \<Rightarrow> nat \<Rightarrow> (Game \<times> nat) option" where
  "mainLineStep g nodeProperties currentParent = do {
     let moveData = extractMoveFromNode nodeProperties;
     (g2, a, n1) \<leftarrow> newChildWithMove g moveData currentParent;
     n2 \<leftarrow> applyAddedBlack (mdAddedBlackStones moveData) n1;
     n3 \<leftarrow> applyAddedWhiteBoardOnly (mdAddedWhiteStones moveData) n2;
     n4 \<leftarrow> applyAddedEmpty (mdAddedEmptyPoints moveData) n3;
     let n5 = n4\<lparr>Comment := commentOf nodeProperties (Comment n4)\<rparr>;
     Some (setNode g2 a n5, a)
   }"

fun mainLineLoop :: "Game \<Rightarrow> SGFNode list \<Rightarrow> nat \<Rightarrow> nat option \<Rightarrow> (Game \<times> nat \<times> nat option) option" where
  "mainLineLoop g [] currentParent lastNode = Some (g, currentParent, lastNode)"
| "mainLineLoop g (nodeProperties # rest) currentParent lastNode =
     (case mainLineStep g nodeProperties currentParent of
        None \<Rightarrow> None
      | Some (g1, newNode) \<Rightarrow> mainLineLoop g1 rest newNode (Some newNode))"

text \<open>
  \<open>processMainLine\<close> returns the error, the state and the node that
  \<open>*lastNode\<close> points to.
\<close>

fun processMainLine :: "Game \<Rightarrow> SGFGameTree \<Rightarrow> nat \<Rightarrow> nat option
    \<Rightarrow> (error option \<times> Game \<times> nat option) option" where
  "processMainLine g (SGFGameTree nodeSeq trees) parentNode lastNode =
     (let sequenceStartIndex = (if Some parentNode = rootNode g then 1 else 0 :: nat) in
      case mainLineLoop g (drop sequenceStartIndex nodeSeq) parentNode lastNode of
        None \<Rightarrow> None
      | Some (g1, currentParent, lastNode1) \<Rightarrow>
          (case trees of
             [] \<Rightarrow> Some (None, g1, lastNode1)
           | first # rest \<Rightarrow>
               (case processMainLine g1 first currentParent lastNode1 of
                  None \<Rightarrow> None
                | Some (Some err, g2, lastNode2) \<Rightarrow> Some (Some err, g2, lastNode2)
                | Some (None, g2, lastNode2) \<Rightarrow>
                    (case processSubtreeLoop g2 rest (Some currentParent) of
                       None \<Rightarrow> None
                     | Some (err, g3) \<Rightarrow> Some (err, g3, lastNode2)))))"

subsection \<open>The root node and the import\<close>

text \<open>
  The annotation loops for the root node skip an invalid coordinate and write
  the overlay without comparing the point with the board size.
\<close>

fun rootMarkAll :: "string list \<Rightarrow> bool list list \<Rightarrow> bool list list option" where
  "rootMarkAll [] m = Some m"
| "rootMarkAll (coord # coords) m =
     (case convertSGFCoordToXY coord of
        None \<Rightarrow> rootMarkAll coords m
      | Some (x, y) \<Rightarrow>
          (case setCell m x y True of
             None \<Rightarrow> None
           | Some m' \<Rightarrow> rootMarkAll coords m'))"

fun rootLabelAll :: "(string \<times> string) list \<Rightarrow> string list list \<Rightarrow> string list list option" where
  "rootLabelAll [] m = Some m"
| "rootLabelAll ((coord, label) # rest) m =
     (case convertSGFCoordToXY coord of
        None \<Rightarrow> rootLabelAll rest m
      | Some (x, y) \<Rightarrow>
          (case setCell m x y label of
             None \<Rightarrow> None
           | Some m' \<Rightarrow> rootLabelAll rest m'))"

definition rootOnlyKeys :: "string list" where
  "rootOnlyKeys = [''AB'', ''AW'', ''C'', ''SZ'', ''GM'', ''FF'', ''CA'', ''AP'', ''DT'', ''GN'',
     ''PC'', ''PB'', ''PW'', ''BR'', ''WR'', ''ST'', ''TM'', ''OT'', ''RE'', ''KM'', ''RU'']"

text \<open>
  The first step of \<open>initializeGameFromSGFTree\<close>: the board size from the \<open>SZ\<close>
  property, written to \<open>g.sizeX\<close> and \<open>g.sizeY\<close>.
\<close>

definition sizeFromSZ :: "Game \<Rightarrow> SGFNode \<Rightarrow> error + Game" where
  "sizeFromSZ g rootNodeProperties =
     (case propGet rootNodeProperties ''SZ'' of
        Some sizeProp \<Rightarrow>
          if length sizeProp > 0 then
            (let sz = sizeProp ! 0;
                 sizes = splitOn CHR '':'' sz
             in if length sizes = 2 then
                  (case atoi (sizes ! 0) of
                     Inl err1 \<Rightarrow> Inl (InvalidSZ sz)
                   | Inr xSize \<Rightarrow>
                       (case atoi (sizes ! 1) of
                          Inl err2 \<Rightarrow> Inl (InvalidSZ sz)
                        | Inr ySize \<Rightarrow> Inr (g\<lparr>gSizeX := xSize, gSizeY := ySize\<rparr>)))
                else
                  (case atoi sz of
                     Inl err \<Rightarrow> Inl (InvalidSZ sz)
                   | Inr sizeInt \<Rightarrow> Inr (g\<lparr>gSizeX := sizeInt, gSizeY := sizeInt\<rparr>)))
          else Inr (g\<lparr>gSizeX := 19, gSizeY := 19\<rparr>)
      | None \<Rightarrow> Inr (g\<lparr>gSizeX := 19, gSizeY := 19\<rparr>))"

text \<open>The root node's setup stones, comment and annotations.\<close>

definition initializeRoot :: "SGFNode \<Rightarrow> GameTreeNode \<Rightarrow> GameTreeNode option" where
  "initializeRoot rootNodeProperties root0 = do {
     r1 \<leftarrow> applyAddedBlack (propList rootNodeProperties ''AB'') root0;
     r2 \<leftarrow> applyAddedWhite (propList rootNodeProperties ''AW'') r1;
     let r3 = r2\<lparr>Comment := commentOf rootNodeProperties (Comment r2)\<rparr>;
     let additionalProps = filter (\<lambda>(key, vals). key \<notin> set rootOnlyKeys) rootNodeProperties;
     if length additionalProps > 0 then do {
       let moveData = extractMoveFromNode additionalProps;
       cr \<leftarrow> rootMarkAll (mdCR moveData) (CR r3);
       sq \<leftarrow> rootMarkAll (mdSQ moveData) (SQ r3);
       tr \<leftarrow> rootMarkAll (mdTR moveData) (TR r3);
       ma \<leftarrow> rootMarkAll (mdMA moveData) (MA r3);
       lb \<leftarrow> rootLabelAll (mdLB moveData) (LB r3);
       Some (r3\<lparr>CR := cr, SQ := sq, TR := tr, MA := ma, LB := lb\<rparr>)
     } else Some r3
   }"

definition initializeGameFromSGFTree :: "Game \<Rightarrow> SGFGameTree \<Rightarrow> (error option \<times> Game) option" where
  "initializeGameFromSGFTree g gameTree =
     (case gameTree of SGFGameTree nodeSeq trees \<Rightarrow>
        if length nodeSeq = 0 then Some (Some TreeHasNoNodes, g)
        else
          let rootNodeProperties = nodeSeq ! 0 in
          (case sizeFromSZ g rootNodeProperties of
             Inl err \<Rightarrow> Some (Some err, g)
           | Inr g1 \<Rightarrow>
               if gSizeX g1 > 52 \<or> gSizeY g1 > 52 then Some (Some BoardTooLarge, g1)
               else do {
                 g2 \<leftarrow> initializeBoard g1;
                 root \<leftarrow> rootNode g2;
                 root0 \<leftarrow> getNode g2 (Some root);
                 root1 \<leftarrow> initializeRoot rootNodeProperties root0;
                 let g3 = setCurrentNode (setNode g2 root root1) (Some root);
                 (err, g4, lastNode) \<leftarrow> processMainLine g3 gameTree root None;
                 (case err of
                    Some e \<Rightarrow> Some (Some e, g4)
                  | None \<Rightarrow>
                      (case lastNode of
                         Some l \<Rightarrow> Some (None, setCurrentNode g4 (Some l))
                       | None \<Rightarrow> Some (None, g4)))
               }))"

definition importFromSGF :: "(int \<Rightarrow> bool) \<Rightarrow> Game \<Rightarrow> string \<Rightarrow> (error option \<times> Game) option" where
  "importFromSGF upper g sgfContent =
     (case parseSGF upper sgfContent of
        Inl err \<Rightarrow> Some (Some err, g)
      | Inr collection \<Rightarrow>
          if length collection = 0 then Some (Some NoGameTrees, g)
          else initializeGameFromSGFTree g (collection ! 0))"

section \<open>Writing a record\<close>

definition version :: string where
  "version = ''2''"

text \<open>\<open>strings.ReplaceAll\<close> for a one-byte pattern.\<close>

definition replaceAll :: "char \<Rightarrow> string \<Rightarrow> string \<Rightarrow> string" where
  "replaceAll old new s = concat (map (\<lambda>c. if c = old then new else [c]) s)"

text \<open>
  The double loops over an overlay, \<open>for y, arr := range ... { for x, el := range arr\<close>,
  visit the rows in order and the cells of a row in order.
\<close>

definition markedPoints :: "bool list list \<Rightarrow> string" where
  "markedPoints m =
     concat (map (\<lambda>(y, arr).
       concat (map (\<lambda>(x, el).
         if el then ''['' @ convertCoordinatesToSGF (int x) (int y) @ '']'' else '''')
         (enumerate 0 arr)))
       (enumerate 0 m))"

definition labelledPoints :: "string list list \<Rightarrow> string" where
  "labelledPoints m =
     concat (map (\<lambda>(y, arr).
       concat (map (\<lambda>(x, el).
         if el \<noteq> '''' then ''['' @ convertCoordinatesToSGF (int x) (int y) @ '':'' @ el @ '']''
         else '''')
         (enumerate 0 arr)))
       (enumerate 0 m))"

definition propertyText :: "string \<Rightarrow> string \<Rightarrow> string" where
  "propertyText ident points = (if ident @ points \<noteq> ident then ident @ points else '''')"

definition formatAnnotations :: "GameTreeNode \<Rightarrow> string" where
  "formatAnnotations node =
     propertyText ''CR'' (markedPoints (CR node))
     @ propertyText ''SQ'' (markedPoints (SQ node))
     @ propertyText ''TR'' (markedPoints (TR node))
     @ propertyText ''MA'' (markedPoints (MA node))
     @ propertyText ''LB'' (labelledPoints (LB node))"

definition formatAddedStones :: "GameTreeNode \<Rightarrow> string" where
  "formatAddedStones node =
     propertyText ''AB'' (markedPoints (addedBlackStones node))
     @ propertyText ''AW'' (markedPoints (addedWhiteStones node))
     @ propertyText ''AE'' (markedPoints (AE node))"

definition formatNodeProperties :: "GameTreeNode \<Rightarrow> bool \<Rightarrow> int \<Rightarrow> int \<Rightarrow> string" where
  "formatNodeProperties node isRoot sizeX sizeY =
     (let sgf0 = '';'';
          sgf1 = (if isRoot
                  then sgf0 @ ''FF[4]'' @ ''GM[1]'' @ ''CA[UTF-8]''
                       @ ''AP[ConnectedGroupsGobanVersion'' @ version @ '']''
                       @ (if sizeX = sizeY then ''SZ['' @ itoa sizeX @ '']''
                          else ''SZ['' @ itoa sizeX @ '':'' @ itoa sizeY @ '']'')
                  else sgf0);
          sgf2 = (if \<not> isRoot \<and> fst (move node) \<ge> 0 \<and> fst (move node) < sizeX
                     \<and> snd (move node) \<ge> 0 \<and> snd (move node) < sizeY
                  then sgf1
                       @ (if nodePlayer node = black then ''B''
                          else if nodePlayer node = white then ''W'' else '''')
                       @ ''['' @ convertCoordinatesToSGF (fst (move node)) (snd (move node)) @ '']''
                  else sgf1);
          sgf3 = (if Comment node \<noteq> ''''
                  then (let escapedComment =
                              replaceAll CHR '']'' [CHR 0x5C, CHR '']'']
                                (replaceAll (CHR 0x5C) [CHR 0x5C, CHR 0x5C] (Comment node))
                        in sgf2 @ ''C['' @ escapedComment @ '']'')
                  else sgf2)
      in sgf3 @ formatAnnotations node @ formatAddedStones node)"

text \<open>
  \<open>generateSGF\<close> follows the \<open>children\<close> pointers.  On a heap whose pointers
  form a cycle the recursion of the source does not end; the first argument
  bounds the depth of the recursion, and \<open>None\<close> is the result when the bound is
  reached or a pointer is followed that leads nowhere.
\<close>

fun generateSGF :: "nat \<Rightarrow> GameTreeNode list \<Rightarrow> nat \<Rightarrow> int \<Rightarrow> int \<Rightarrow> string option" where
  "generateSGF 0 nodeHeap node sizeX sizeY = None"
| "generateSGF (Suc depth) nodeHeap node sizeX sizeY =
     (if node \<ge> length nodeHeap then None
      else
        let n = nodeHeap ! node;
            sgf = ''('' @ formatNodeProperties n (parent n = None) sizeX sizeY
        in if length (children n) > 0 then
             (if length (children n) = 1 then
                (case generateSGF depth nodeHeap (children n ! 0) sizeX sizeY of
                   None \<Rightarrow> None
                 | Some childSGF \<Rightarrow> Some (sgf @ butlast (tl childSGF) @ '')''))
              else
                (case those (map (\<lambda>child. generateSGF depth nodeHeap child sizeX sizeY)
                               (children n)) of
                   None \<Rightarrow> None
                 | Some parts \<Rightarrow> Some (sgf @ concat parts @ '')'')))
           else Some (sgf @ '')''))"

definition exportToSGF :: "Game \<Rightarrow> string option" where
  "exportToSGF g =
     (case rootNode g of
        None \<Rightarrow> None
      | Some root \<Rightarrow> generateSGF (Suc (length (heap g))) (heap g) root (gSizeX g) (gSizeY g))"

section \<open>Passing, and the engine's reply\<close>









subsection \<open>Coordinates of the engine\<close>



subsection \<open>The exchange with the engine\<close>







section \<open>A game with a branch at the root\<close>

text \<open>
  The game that the program holds after these steps on a fresh 3 by 3 board: a
  black setup stone on \<open>(0,0)\<close> and a white one on \<open>(2,2)\<close>, a circle, a
  square, a triangle, a cross and a label on the root node, a comment with a
  closing bracket and a backslash, a black move on \<open>(1,0)\<close>, then, back on the
  root node, a black move on \<open>(0,1)\<close>.  The root node has the id \<open>2\<close>, since
  \<open>initializeBoard\<close> sets the counter to 1 before it allocates.
\<close>

definition noMarks3 :: "bool list list" where
  "noMarks3 = replicate 3 (replicate 3 False)"

definition noLabels3 :: "string list list" where
  "noLabels3 = replicate 3 (replicate 3 '''')"

definition branchGame :: Game where
  "branchGame = \<lparr>gSizeX = 3, gSizeY = 3, currentNode = Some 2, rootNode = Some 0,
     nodeMap = [''2'' \<mapsto> 0, ''3'' \<mapsto> 1, ''4'' \<mapsto> 2],
     idCounter = 4,
     heap = [
      \<lparr>boardState = [[''B'', ''.'', ''.''], [''.'', ''.'', ''.''], [''.'', ''.'', ''W'']],
       move = (0, 0), nodePlayer = '''', children = [1, 2], parent = None, nodeId = ''2'',
       koX = -1, koY = -1,
       Comment = ''a]b'' @ [CHR 0x5C] @ ''c'',
       addedBlackStones = [[True, False, False], [False, False, False], [False, False, False]],
       addedWhiteStones = [[False, False, False], [False, False, False], [False, False, True]],
       AE = noMarks3,
       CR = [[False, True, False], [False, False, False], [False, False, False]],
       SQ = [[False, False, True], [False, False, False], [False, False, False]],
       TR = [[False, False, False], [True, False, False], [False, False, False]],
       MA = [[False, False, False], [False, True, False], [False, False, False]],
       LB = [['''', '''', ''''], ['''', '''', ''x''], ['''', '''', '''']]\<rparr>,
      \<lparr>boardState = [[''B'', ''B'', ''.''], [''.'', ''.'', ''.''], [''.'', ''.'', ''W'']],
       move = (1, 0), nodePlayer = ''B'', children = [], parent = Some 0, nodeId = ''3'',
       koX = -1, koY = -1,
       Comment = '''', addedBlackStones = noMarks3, addedWhiteStones = noMarks3, AE = noMarks3,
       CR = noMarks3, SQ = noMarks3, TR = noMarks3, MA = noMarks3, LB = noLabels3\<rparr>,
      \<lparr>boardState = [[''B'', ''.'', ''.''], [''B'', ''.'', ''.''], [''.'', ''.'', ''W'']],
       move = (0, 1), nodePlayer = ''B'', children = [], parent = Some 0, nodeId = ''4'',
       koX = -1, koY = -1,
       Comment = '''', addedBlackStones = noMarks3, addedWhiteStones = noMarks3, AE = noMarks3,
       CR = noMarks3, SQ = noMarks3, TR = noMarks3, MA = noMarks3, LB = noLabels3\<rparr>],
     mouseMode = ''play'', territoryMap = [], gtpAttached = False, gtpColor = ''B''\<rparr>"

text \<open>The record that \<open>exportToSGF\<close> writes for it.\<close>

definition branchText :: string where
  "branchText =
     ''(;FF[4]GM[1]CA[UTF-8]AP[ConnectedGroupsGobanVersion2]SZ[3]C[a'' @ [CHR 0x5C] @ '']b''
     @ [CHR 0x5C, CHR 0x5C] @ ''c]CR[ba]SQ[ca]TR[ab]MA[bb]LB[cb:x]AB[aa]AW[cc](;B[ba])(;B[ab]))''"

text \<open>
  The moves of a game tree and its branching shape, read from the heap by
  following the \<open>children\<close> pointers (the fuel bounds the depth).
\<close>

datatype MoveTree = MoveTree "int \<times> int" "MoveTree list"

fun moveTree :: "nat \<Rightarrow> GameTreeNode list \<Rightarrow> nat \<Rightarrow> MoveTree option" where
  "moveTree 0 h a = None"
| "moveTree (Suc fuel) h a =
     (if a < length h
      then map_option (MoveTree (move (h ! a))) (those (map (moveTree fuel h) (children (h ! a))))
      else None)"

definition gameMoves :: "Game \<Rightarrow> MoveTree option" where
  "gameMoves g =
     (case rootNode g of
        None \<Rightarrow> None
      | Some r \<Rightarrow> moveTree (length (heap g)) (heap g) r)"


section \<open>Properties of the coordinate codes\<close>

lemma intToChar_low: "0 \<le> n \<Longrightarrow> n \<le> 25 \<Longrightarrow> intToChar n = ([char_of (97 + n)], None)"
  by (simp add: intToChar_def)

lemma intToChar_high: "26 \<le> n \<Longrightarrow> n \<le> 51 \<Longrightarrow> intToChar n = ([char_of (65 + n - 26)], None)"
  by (simp add: intToChar_def)

lemma charToInt_intToChar:
  assumes "0 \<le> n" and "n \<le> 51"
  shows "charToInt (of_char (hd (fst (intToChar n)))) = (n, None)"
proof (cases "n \<le> 25")
  case True
  with assms show ?thesis by (simp add: intToChar_low charToInt_def)
next
  case False
  with assms show ?thesis by (simp add: intToChar_high charToInt_def)
qed

lemma intToChar_single:
  assumes "0 \<le> n" and "n \<le> 51"
  shows "intToChar n = ([hd (fst (intToChar n))], None)"
proof (cases "n \<le> 25")
  case True
  with assms show ?thesis by (simp add: intToChar_low)
next
  case False
  with assms show ?thesis by (simp add: intToChar_high)
qed

lemma coordAlphabet_image:
  "(\<lambda>x. hd (fst (intToChar x))) ` {0..51} = coordAlphabet"
proof -
  have "{0..51::int} = set [0..51]" by simp
  also have "(\<lambda>x. hd (fst (intToChar x))) ` set [0..51] = set (map (\<lambda>x. hd (fst (intToChar x))) [0..51])"
    by simp
  also have "map (\<lambda>x. hd (fst (intToChar x))) [0..51]
      = ''abcdefghijklmnopqrstuvwxyzABCDEFGHIJKLMNOPQRSTUVWXYZ''"
    by code_simp
  finally show ?thesis by (simp only: coordAlphabet_def)
qed

lemma intToChar_inj: "inj_on (\<lambda>x. hd (fst (intToChar x))) {0..51}"
proof (rule inj_onI)
  fix a b :: int
  assume a: "a \<in> {0..51}" and b: "b \<in> {0..51}"
    and eq: "hd (fst (intToChar a)) = hd (fst (intToChar b))"
  from a have "charToInt (of_char (hd (fst (intToChar a)))) = (a, None)"
    by (simp add: charToInt_intToChar)
  moreover from b have "charToInt (of_char (hd (fst (intToChar b)))) = (b, None)"
    by (simp add: charToInt_intToChar)
  ultimately have "(a, None :: error option) = (b, None)"
    by (simp only: eq)
  then show "a = b" by (simp only: prod.inject)
qed

text \<open>
  Claim C8.  For every \<open>x\<close> in \<open>0..51\<close>, \<open>intToChar\<close> returns a one-character
  string without error, and \<open>charToInt\<close> applied to that character returns \<open>x\<close>
  without error; the encoding is a bijection between \<open>0..51\<close> and the alphabet
  \<open>a\<close>-\<open>z\<close>, \<open>A\<close>-\<open>Z\<close>.
\<close>

theorem coordinate_roundtrip_bijection:
  "(\<forall>x\<in>{0..51}. \<exists>c. intToChar x = ([c], None) \<and> charToInt (of_char c) = (x, None))
   \<and> bij_betw (\<lambda>x. hd (fst (intToChar x))) {0..51} coordAlphabet"
proof
  show "\<forall>x\<in>{0..51}. \<exists>c. intToChar x = ([c], None) \<and> charToInt (of_char c) = (x, None)"
  proof
    fix x :: int
    assume "x \<in> {0..51}"
    then have r: "0 \<le> x" "x \<le> 51" by simp_all
    from r have "intToChar x = ([hd (fst (intToChar x))], None)"
      by (rule intToChar_single)
    moreover from r have "charToInt (of_char (hd (fst (intToChar x)))) = (x, None)"
      by (rule charToInt_intToChar)
    ultimately show "\<exists>c. intToChar x = ([c], None) \<and> charToInt (of_char c) = (x, None)"
      by blast
  qed
  show "bij_betw (\<lambda>x. hd (fst (intToChar x))) {0..51} coordAlphabet"
    unfolding bij_betw_def using intToChar_inj coordAlphabet_image by blast
qed

theorem coordinate_roundtrip_bijection_witness:
  "(30::int) \<in> {0..51} \<and> (\<exists>c. intToChar 30 = ([c], None) \<and> charToInt (of_char c) = (30, None))"
proof -
  have m: "(30::int) \<in> {0..51}" by simp
  from conjunct1 [OF coordinate_roundtrip_bijection] m
  have "\<exists>c. intToChar 30 = ([c], None) \<and> charToInt (of_char c) = (30, None)"
    by (rule bspec)
  with m show ?thesis by (rule conjI)
qed

text \<open>
  Claim C10.  The letter alphabet of \<open>clientToGTPCoords\<close> has 25 entries, so for
  every column index \<open>x\<close> with \<open>25 \<le> x < 52\<close> the function returns the empty
  string, and the \<open>play\<close> command built from it carries no coordinate.
\<close>

theorem clientToGTPCoords_wide_board_empty:
  assumes "25 \<le> x" and "x < 52"
  shows "length letterRunes = 25
         \<and> clientToGTPCoords sizeY x y = ''''
         \<and> playCommand stone (clientToGTPCoords sizeY x y) = ''play '' @ stone @ '' ''"
  using assms by (simp add: clientToGTPCoords_def letterRunes_def playCommand_def)

theorem clientToGTPCoords_wide_board_empty_witness:
  "(25::int) \<le> 30 \<and> (30::int) < 52
   \<and> clientToGTPCoords 52 30 0 = ''''
   \<and> playCommand ''B'' (clientToGTPCoords 52 30 0) = ''play B ''"
proof -
  have a: "(25::int) \<le> 30" and b: "(30::int) < 52" by simp_all
  from clientToGTPCoords_wide_board_empty [OF a b, of 52 0 "''B''"]
  show ?thesis using a b by (simp add: playCommand_def)
qed

section \<open>Groups and liberties\<close>

text \<open>
  A board of the program has \<open>sizeY\<close> rows of \<open>sizeX\<close> cells.  On such a board
  the group of a stone is the set of the stones of its colour that are linked
  with it by steps to neighbouring points, and the liberties of the group are
  the empty points next to one of its stones.
\<close>

definition wellFormedBoard :: "int \<Rightarrow> int \<Rightarrow> 'a list list \<Rightarrow> bool" where
  "wellFormedBoard sizeX sizeY b \<longleftrightarrow>
     length b = nat sizeY \<and> (\<forall>row\<in>set b. length row = nat sizeX)"

definition stepTo :: "int \<times> int \<Rightarrow> int \<times> int \<Rightarrow> int \<times> int" where
  "stepTo p d = (fst p + fst d, snd p + snd d)"

definition pointIs :: "board \<Rightarrow> int \<Rightarrow> int \<Rightarrow> string \<Rightarrow> int \<times> int \<Rightarrow> bool" where
  "pointIs b sizeX sizeY c p \<longleftrightarrow>
     p \<in> cells sizeX sizeY \<and> cellAt b (fst p) (snd p) = Some c"

inductive_set groupOf :: "board \<Rightarrow> string \<Rightarrow> int \<Rightarrow> int \<Rightarrow> int \<times> int \<Rightarrow> (int \<times> int) set"
  for b :: board and player :: string and sizeX :: int and sizeY :: int and p :: "int \<times> int" where
  groupOf_start: "pointIs b sizeX sizeY player p \<Longrightarrow> p \<in> groupOf b player sizeX sizeY p"
| groupOf_step: "q \<in> groupOf b player sizeX sizeY p \<Longrightarrow> d \<in> set dirs
     \<Longrightarrow> pointIs b sizeX sizeY player (stepTo q d)
     \<Longrightarrow> stepTo q d \<in> groupOf b player sizeX sizeY p"

definition libertiesOf :: "board \<Rightarrow> string \<Rightarrow> int \<Rightarrow> int \<Rightarrow> int \<times> int \<Rightarrow> (int \<times> int) set" where
  "libertiesOf b player sizeX sizeY p =
     {r. pointIs b sizeX sizeY empty_cell r
         \<and> (\<exists>q\<in>groupOf b player sizeX sizeY p. \<exists>d\<in>set dirs. r = stepTo q d)}"

lemma groupOf_stones: "q \<in> groupOf b player sizeX sizeY p \<Longrightarrow> pointIs b sizeX sizeY player q"
  by (induction rule: groupOf.induct)

lemma groupOf_root: "q \<in> groupOf b player sizeX sizeY p \<Longrightarrow> pointIs b sizeX sizeY player p"
  by (induction rule: groupOf.induct)

lemma groupOf_trans:
  assumes "r \<in> groupOf b player sizeX sizeY q" and "q \<in> groupOf b player sizeX sizeY p"
  shows "r \<in> groupOf b player sizeX sizeY p"
  using assms by (induction rule: groupOf.induct) (auto intro: groupOf_step)

lemma cellAt_wellFormed:
  assumes "wellFormedBoard sizeX sizeY b" and "(x, y) \<in> cells sizeX sizeY"
  shows "cellAt b x y = Some (b ! nat y ! nat x)"
proof -
  from assms(2) have r: "0 \<le> x" "x < sizeX" "0 \<le> y" "y < sizeY" by (simp_all add: in_cells)
  with assms(1) have y: "nat y < length b" by (simp add: wellFormedBoard_def)
  then have "b ! nat y \<in> set b" by simp
  with assms(1) have "length (b ! nat y) = nat sizeX" by (simp add: wellFormedBoard_def)
  with r y show ?thesis by (simp add: cellAt_def)
qed

text \<open>
  The bookkeeping of a search: every point that the search adds to \<open>visited\<close>
  is a stone of the colour, and each of its neighbours that is empty or a stone
  of the colour is visited in the end.
\<close>

definition closedNew :: "board \<Rightarrow> string \<Rightarrow> int \<Rightarrow> int \<Rightarrow> (int \<times> int) set \<Rightarrow> (int \<times> int) set \<Rightarrow> bool" where
  "closedNew b player sizeX sizeY V V' \<longleftrightarrow>
     (\<forall>p\<in>V' - V. pointIs b sizeX sizeY player p
        \<and> (\<forall>d\<in>set dirs.
              pointIs b sizeX sizeY empty_cell (stepTo p d) \<or> pointIs b sizeX sizeY player (stepTo p d)
              \<longrightarrow> stepTo p d \<in> V'))"

lemma closedNew_refl: "closedNew b player sizeX sizeY V V"
  by (simp add: closedNew_def)

lemma closedNew_trans:
  assumes "closedNew b player sizeX sizeY V V1" and "closedNew b player sizeX sizeY V1 V2"
    and "V1 \<subseteq> V2"
  shows "closedNew b player sizeX sizeY V V2"
  unfolding closedNew_def
proof
  fix p assume p: "p \<in> V2 - V"
  show "pointIs b sizeX sizeY player p
        \<and> (\<forall>d\<in>set dirs.
              pointIs b sizeX sizeY empty_cell (stepTo p d) \<or> pointIs b sizeX sizeY player (stepTo p d)
              \<longrightarrow> stepTo p d \<in> V2)"
  proof (cases "p \<in> V1")
    case True
    with p assms(1) assms(3) show ?thesis unfolding closedNew_def by blast
  next
    case False
    with p assms(2) show ?thesis unfolding closedNew_def by blast
  qed
qed

lemma closed_contains_group:
  assumes cl: "closedNew b player sizeX sizeY {} V" and p: "p \<in> V"
    and q: "q \<in> groupOf b player sizeX sizeY p"
  shows "q \<in> V"
  using q
proof (induction rule: groupOf.induct)
  case groupOf_start
  from p show ?case .
next
  case (groupOf_step q d)
  with cl show ?case unfolding closedNew_def by blast
qed

lemma closed_no_liberty:
  assumes cl: "closedNew b player sizeX sizeY {} V" and p: "p \<in> V"
    and ne: "player \<noteq> empty_cell"
  shows "libertiesOf b player sizeX sizeY p = {}"
proof -
  have "False" if r: "pointIs b sizeX sizeY empty_cell (stepTo q d)"
    and q: "q \<in> groupOf b player sizeX sizeY p" and d: "d \<in> set dirs" for q d
  proof -
    from cl p q have "q \<in> V" by (rule closed_contains_group)
    with cl d r have "stepTo q d \<in> V" unfolding closedNew_def by blast
    with cl have "pointIs b sizeX sizeY player (stepTo q d)" unfolding closedNew_def by blast
    with r ne show False by (simp add: pointIs_def)
  qed
  then show ?thesis unfolding libertiesOf_def by blast
qed

subsection \<open>The liberty search\<close>

lemma dfs_total:
  assumes wf: "wellFormedBoard sizeX sizeY b"
  shows "dfs b x y player V sizeX sizeY \<noteq> None"
    and "dfs_loop b x y ds player V sizeX sizeY \<noteq> None"
  using wf
proof (induction b x y player V sizeX sizeY and b x y ds player V sizeX sizeY
    rule: dfs_dfs_loop.induct)
  case (1 board x y player visited sizeX sizeY)
  show ?case
  proof (cases "x < 0 \<or> x \<ge> sizeX \<or> y < 0 \<or> y \<ge> sizeY \<or> (x, y) \<in> visited")
    case True
    then show ?thesis by (subst dfs.simps) auto
  next
    case False
    then have "(x, y) \<in> cells sizeX sizeY" by (simp add: in_cells)
    with "1.prems" have c: "cellAt board x y = Some (board ! nat y ! nat x)"
      by (rule cellAt_wellFormed)
    show ?thesis
    proof (cases "board ! nat y ! nat x = empty_cell \<or> board ! nat y ! nat x \<noteq> player")
      case True
      with False c show ?thesis by (subst dfs.simps) auto
    next
      case nb: False
      with False c "1.prems"
      have "dfs_loop board x y dirs player (insert (x, y) visited) sizeX sizeY \<noteq> None"
        by (intro "1.IH") auto
      with False c nb show ?thesis by (subst dfs.simps) auto
    qed
  qed
next
  case (2 board x y player visited sizeX sizeY)
  show ?case by simp
next
  case (3 board x y d ds player visited sizeX sizeY)
  from "3.prems" have "dfs board (x + fst d) (y + snd d) player visited sizeX sizeY \<noteq> None"
    by (rule "3.IH"(1))
  then obtain r v where c1: "dfs board (x + fst d) (y + snd d) player visited sizeX sizeY = Some (r, v)"
    by auto
  show ?case
  proof (cases r)
    case True
    with c1 show ?thesis by simp
  next
    case False
    with c1 "3.prems" have "dfs_loop board x y ds player v sizeX sizeY \<noteq> None"
      by (intro "3.IH"(2)[of "(r, v)" r v]) auto
    with c1 False show ?thesis by simp
  qed
qed

text \<open>A search that answers no has visited a set that is closed.\<close>

lemma dfs_false:
  assumes ne: "player \<noteq> empty_cell"
  shows "dfs b x y player V sizeX sizeY = Some (False, V') \<Longrightarrow>
           V \<subseteq> V'
           \<and> (pointIs b sizeX sizeY empty_cell (x, y) \<or> pointIs b sizeX sizeY player (x, y)
                \<longrightarrow> (x, y) \<in> V')
           \<and> closedNew b player sizeX sizeY V V'"
    and "dfs_loop b x y ds player V sizeX sizeY = Some (False, V') \<Longrightarrow>
           V \<subseteq> V' \<and> closedNew b player sizeX sizeY V V'
           \<and> (\<forall>d\<in>set ds.
                 pointIs b sizeX sizeY empty_cell (stepTo (x, y) d)
                 \<or> pointIs b sizeX sizeY player (stepTo (x, y) d)
                 \<longrightarrow> stepTo (x, y) d \<in> V')"
  using ne
proof (induction b x y player V sizeX sizeY and b x y ds player V sizeX sizeY
    arbitrary: V' and V' rule: dfs_dfs_loop.induct)
  case (1 board x y player visited sizeX sizeY)
  note eq = "1.prems"(1) [unfolded dfs.simps [of board x y player visited sizeX sizeY]]
  show ?case
  proof (cases "x < 0 \<or> x \<ge> sizeX \<or> y < 0 \<or> y \<ge> sizeY")
    case True
    then have "(x, y) \<notin> cells sizeX sizeY" by (auto simp: in_cells)
    moreover from True eq have "V' = visited" by auto
    ultimately show ?thesis by (simp add: pointIs_def closedNew_refl)
  next
    case inb: False
    then have cell: "(x, y) \<in> cells sizeX sizeY" by (simp add: in_cells)
    show ?thesis
    proof (cases "(x, y) \<in> visited")
      case True
      with inb eq have v: "V' = visited" by auto
      with True show ?thesis by (simp add: closedNew_refl)
    next
      case nv: False
      from inb nv eq obtain c where c: "cellAt board x y = Some c"
        by (cases "cellAt board x y") auto
      from inb nv eq c have nec: "c \<noteq> empty_cell" by auto
      show ?thesis
      proof (cases "c = player")
        case False
        with inb nv eq c nec have "V' = visited" by auto
        with c nec False show ?thesis by (simp add: pointIs_def closedNew_refl)
      next
        case True
        with inb nv eq c nec
        have l: "dfs_loop board x y dirs player (insert (x, y) visited) sizeX sizeY = Some (False, V')"
          by auto
        from inb nv c nec True l "1.prems"(2)
        have ih: "insert (x, y) visited \<subseteq> V' \<and> closedNew board player sizeX sizeY (insert (x, y) visited) V'
           \<and> (\<forall>d\<in>set dirs.
                 pointIs board sizeX sizeY empty_cell (stepTo (x, y) d)
                 \<or> pointIs board sizeX sizeY player (stepTo (x, y) d)
                 \<longrightarrow> stepTo (x, y) d \<in> V')"
          by (intro "1.IH") auto
        from cell c True have st: "pointIs board sizeX sizeY player (x, y)"
          by (simp add: pointIs_def)
        have "closedNew board player sizeX sizeY visited V'"
          unfolding closedNew_def
        proof
          fix p assume p: "p \<in> V' - visited"
          show "pointIs board sizeX sizeY player p
            \<and> (\<forall>d\<in>set dirs.
              pointIs board sizeX sizeY empty_cell (stepTo p d) \<or> pointIs board sizeX sizeY player (stepTo p d)
              \<longrightarrow> stepTo p d \<in> V')"
          proof (cases "p = (x, y)")
            case True
            with st ih show ?thesis by blast
          next
            case False
            with p have "p \<in> V' - insert (x, y) visited" by blast
            with ih show ?thesis unfolding closedNew_def by blast
          qed
        qed
        with ih show ?thesis by blast
      qed
    qed
  qed
next
  case (2 board x y player visited sizeX sizeY)
  then show ?case by (simp add: closedNew_refl)
next
  case (3 board x y d ds player visited sizeX sizeY)
  from "3.prems"(1) obtain r1 v1
    where c1: "dfs board (x + fst d) (y + snd d) player visited sizeX sizeY = Some (r1, v1)"
    by (cases "dfs board (x + fst d) (y + snd d) player visited sizeX sizeY") auto
  with "3.prems"(1) have r1: "\<not> r1" by (cases r1) auto
  with c1 "3.prems"(1) have l: "dfs_loop board x y ds player v1 sizeX sizeY = Some (False, V')"
    by simp
  from c1 r1 "3.prems"(2)
  have a: "visited \<subseteq> v1
           \<and> (pointIs board sizeX sizeY empty_cell (x + fst d, y + snd d)
               \<or> pointIs board sizeX sizeY player (x + fst d, y + snd d)
                \<longrightarrow> (x + fst d, y + snd d) \<in> v1)
           \<and> closedNew board player sizeX sizeY visited v1"
    by (intro "3.IH"(1)) auto
  from c1 r1 l "3.prems"(2)
  have b: "v1 \<subseteq> V' \<and> closedNew board player sizeX sizeY v1 V'
           \<and> (\<forall>d\<in>set ds.
                 pointIs board sizeX sizeY empty_cell (stepTo (x, y) d)
                 \<or> pointIs board sizeX sizeY player (stepTo (x, y) d)
                 \<longrightarrow> stepTo (x, y) d \<in> V')"
    by (intro "3.IH"(2)[of "(r1, v1)" r1 v1]) auto
  from a b have "closedNew board player sizeX sizeY visited V'"
    by (blast intro: closedNew_trans)
  moreover from a b have "pointIs board sizeX sizeY empty_cell (stepTo (x, y) d)
                 \<or> pointIs board sizeX sizeY player (stepTo (x, y) d)
                 \<longrightarrow> stepTo (x, y) d \<in> V'"
    by (auto simp: stepTo_def)
  ultimately show ?case using a b by auto
qed

text \<open>A search that answers yes has found an empty point next to the group.\<close>

lemma dfs_true:
  shows "dfs b x y player V sizeX sizeY = Some (True, V') \<Longrightarrow>
           pointIs b sizeX sizeY empty_cell (x, y)
           \<or> libertiesOf b player sizeX sizeY (x, y) \<noteq> {}"
    and "dfs_loop b x y ds player V sizeX sizeY = Some (True, V') \<Longrightarrow>
           (\<exists>d\<in>set ds. pointIs b sizeX sizeY empty_cell (stepTo (x, y) d)
              \<or> libertiesOf b player sizeX sizeY (stepTo (x, y) d) \<noteq> {})"
proof (induction b x y player V sizeX sizeY and b x y ds player V sizeX sizeY
    arbitrary: V' and V' rule: dfs_dfs_loop.induct)
  case (1 board x y player visited sizeX sizeY)
  note eq = "1.prems"(1) [unfolded dfs.simps [of board x y player visited sizeX sizeY]]
  from eq have inb: "\<not> (x < 0 \<or> x \<ge> sizeX \<or> y < 0 \<or> y \<ge> sizeY)" and nv: "(x, y) \<notin> visited"
    by (auto split: if_splits)
  then have cell: "(x, y) \<in> cells sizeX sizeY" by (simp add: in_cells)
  from inb nv eq obtain c where c: "cellAt board x y = Some c"
    by (cases "cellAt board x y") auto
  show ?case
  proof (cases "c = empty_cell")
    case True
    with cell c show ?thesis by (simp add: pointIs_def)
  next
    case nec: False
    with inb nv eq c have pl: "c = player"
      and l: "dfs_loop board x y dirs player (insert (x, y) visited) sizeX sizeY = Some (True, V')"
      by (auto split: if_splits)
    from cell c pl have st: "pointIs board sizeX sizeY player (x, y)" by (simp add: pointIs_def)
    then have self: "(x, y) \<in> groupOf board player sizeX sizeY (x, y)" by (rule groupOf_start)
    from inb nv c nec pl l
    have "\<exists>d\<in>set dirs. pointIs board sizeX sizeY empty_cell (stepTo (x, y) d)
              \<or> libertiesOf board player sizeX sizeY (stepTo (x, y) d) \<noteq> {}"
      by (intro "1.IH") auto
    then obtain d where d: "d \<in> set dirs"
      and or: "pointIs board sizeX sizeY empty_cell (stepTo (x, y) d)
              \<or> libertiesOf board player sizeX sizeY (stepTo (x, y) d) \<noteq> {}"
      by blast
    from or have "libertiesOf board player sizeX sizeY (x, y) \<noteq> {}"
    proof
      assume "pointIs board sizeX sizeY empty_cell (stepTo (x, y) d)"
      with self d have "stepTo (x, y) d \<in> libertiesOf board player sizeX sizeY (x, y)"
        unfolding libertiesOf_def by blast
      then show ?thesis by blast
    next
      assume "libertiesOf board player sizeX sizeY (stepTo (x, y) d) \<noteq> {}"
      then obtain r q e where r: "pointIs board sizeX sizeY empty_cell r"
        and q: "q \<in> groupOf board player sizeX sizeY (stepTo (x, y) d)"
        and e: "e \<in> set dirs" "r = stepTo q e"
        unfolding libertiesOf_def by blast
      from q have "pointIs board sizeX sizeY player (stepTo (x, y) d)" by (rule groupOf_root)
      with self d have "stepTo (x, y) d \<in> groupOf board player sizeX sizeY (x, y)"
        by (rule groupOf_step)
      with q have "q \<in> groupOf board player sizeX sizeY (x, y)" by (rule groupOf_trans)
      with r e have "r \<in> libertiesOf board player sizeX sizeY (x, y)"
        unfolding libertiesOf_def by blast
      then show ?thesis by blast
    qed
    then show ?thesis by simp
  qed
next
  case (2 board x y player visited sizeX sizeY)
  then show ?case by simp
next
  case (3 board x y d ds player visited sizeX sizeY)
  from "3.prems"(1) obtain r1 v1
    where c1: "dfs board (x + fst d) (y + snd d) player visited sizeX sizeY = Some (r1, v1)"
    by (cases "dfs board (x + fst d) (y + snd d) player visited sizeX sizeY") auto
  show ?case
  proof (cases r1)
    case True
    with c1 "3.prems" have "dfs board (x + fst d) (y + snd d) player visited sizeX sizeY = Some (True, v1)"
      by simp
    then have "pointIs board sizeX sizeY empty_cell (x + fst d, y + snd d)
           \<or> libertiesOf board player sizeX sizeY (x + fst d, y + snd d) \<noteq> {}"
      by (rule "3.IH"(1))
    then show ?thesis by (simp add: stepTo_def)
  next
    case False
    with c1 "3.prems" have l: "dfs_loop board x y ds player v1 sizeX sizeY = Some (True, V')"
      by simp
    with c1 False
    have "\<exists>d\<in>set ds. pointIs board sizeX sizeY empty_cell (stepTo (x, y) d)
              \<or> libertiesOf board player sizeX sizeY (stepTo (x, y) d) \<noteq> {}"
      by (intro "3.IH"(2)[of "(r1, v1)" r1 v1]) auto
    then show ?thesis by auto
  qed
qed

text \<open>
  \<open>hasLiberty\<close>, asked at a stone of the colour, tells whether the group of the
  stone has a liberty.
\<close>

lemma hasLiberty_correct:
  assumes wf: "wellFormedBoard sizeX sizeY b" and ne: "player \<noteq> empty_cell"
    and st: "pointIs b sizeX sizeY player (x, y)"
  shows "hasLiberty b x y player sizeX sizeY = Some (libertiesOf b player sizeX sizeY (x, y) \<noteq> {})"
proof -
  from dfs_total(1) [OF wf, of x y player "{}"] obtain r v
    where d: "dfs b x y player {} sizeX sizeY = Some (r, v)" by auto
  show ?thesis
  proof (cases r)
    case True
    with d dfs_true(1) [of b x y player "{}" sizeX sizeY v]
    have "pointIs b sizeX sizeY empty_cell (x, y) \<or> libertiesOf b player sizeX sizeY (x, y) \<noteq> {}"
      by simp
    with st ne have "libertiesOf b player sizeX sizeY (x, y) \<noteq> {}" by (auto simp: pointIs_def)
    with d True show ?thesis by (simp add: hasLiberty_def)
  next
    case False
    with d dfs_false(1) [OF ne, of b x y "{}" sizeX sizeY v] st
    have "(x, y) \<in> v" and "closedNew b player sizeX sizeY {} v" by simp_all
    then have "libertiesOf b player sizeX sizeY (x, y) = {}" using ne
      by (intro closed_no_liberty [of b player sizeX sizeY v])
    with d False show ?thesis by (simp add: hasLiberty_def)
  qed
qed

subsection \<open>Legal moves\<close>

text \<open>The scratch copy of a board with a stone of \<open>player\<close> written on \<open>(x, y)\<close>.\<close>

definition placed :: "board \<Rightarrow> int \<Rightarrow> int \<Rightarrow> string \<Rightarrow> board" where
  "placed b x y player = b[nat y := (b ! nat y)[nat x := player]]"

lemma setCell_wellFormed:
  assumes "wellFormedBoard sizeX sizeY b" and "(x, y) \<in> cells sizeX sizeY"
  shows "setCell b x y v = Some (b[nat y := (b ! nat y)[nat x := v]])"
proof -
  from assms(2) have r: "0 \<le> x" "x < sizeX" "0 \<le> y" "y < sizeY" by (simp_all add: in_cells)
  with assms(1) have y: "nat y < length b" by (simp add: wellFormedBoard_def)
  then have "b ! nat y \<in> set b" by simp
  with assms(1) have "length (b ! nat y) = nat sizeX" by (simp add: wellFormedBoard_def)
  with r y show ?thesis by (simp add: setCell_def)
qed

lemma wellFormedBoard_update:
  assumes "wellFormedBoard sizeX sizeY b"
  shows "wellFormedBoard sizeX sizeY (b[j := (b ! j)[i := v]])"
proof -
  have "length row = nat sizeX" if row: "row \<in> set (b[j := (b ! j)[i := v]])" for row
  proof (cases "j < length b")
    case False
    then have "length b \<le> j" by simp
    then have "b[j := (b ! j)[i := v]] = b" by (rule list_update_beyond)
    with row have "row \<in> set b" by simp
    with assms show ?thesis by (simp add: wellFormedBoard_def)
  next
    case True
    then have "b ! j \<in> set b" by simp
    with assms have l: "length ((b ! j)[i := v]) = nat sizeX" by (simp add: wellFormedBoard_def)
    from row set_update_subset_insert [of b j "(b ! j)[i := v]"]
    have "row = (b ! j)[i := v] \<or> row \<in> set b" by blast
    with l assms show ?thesis by (auto simp: wellFormedBoard_def)
  qed
  with assms show ?thesis by (simp add: wellFormedBoard_def)
qed

lemma switchPlayer_not_empty: "switchPlayer player \<noteq> empty_cell"
  by (simp add: switchPlayer_def black_def white_def empty_cell_def)

text \<open>
  \<open>getCapturedStones\<close> lists the neighbours of \<open>(x, y)\<close> that are stones of the
  opponent in a group without liberties.
\<close>

lemma getCapturedLoop_correct:
  assumes wf: "wellFormedBoard (gSizeX g) (gSizeY g) b" and ne: "opponent \<noteq> empty_cell"
  shows "getCapturedLoop g b x y opponent ds captured =
           Some (captured @ filter (\<lambda>n. pointIs b (gSizeX g) (gSizeY g) opponent n
                    \<and> libertiesOf b opponent (gSizeX g) (gSizeY g) n = {})
                  (map (stepTo (x, y)) ds))"
proof (induction ds arbitrary: captured)
  case Nil
  show ?case by simp
next
  case (Cons d ds)
  define n where "n = stepTo (x, y) d"
  have n: "x + fst d = fst n" "y + snd d = snd n" by (simp_all add: n_def stepTo_def)
  show ?case
  proof (cases "n \<in> cells (gSizeX g) (gSizeY g)")
    case False
    then have "\<not> pointIs b (gSizeX g) (gSizeY g) opponent n" by (simp add: pointIs_def)
    moreover from False have "fst n < 0 \<or> fst n \<ge> gSizeX g \<or> snd n < 0 \<or> snd n \<ge> gSizeY g"
      by (cases n) (auto simp: in_cells)
    ultimately show ?thesis
      using Cons.IH [of captured] by (simp add: n Let_def n_def [symmetric])
  next
    case True
    then have inb: "\<not> (fst n < 0 \<or> fst n \<ge> gSizeX g \<or> snd n < 0 \<or> snd n \<ge> gSizeY g)"
      by (cases n) (auto simp: in_cells)
    from True have "(fst n, snd n) \<in> cells (gSizeX g) (gSizeY g)" by simp
    with wf have c: "cellAt b (fst n) (snd n) = Some (b ! nat (snd n) ! nat (fst n))"
      by (rule cellAt_wellFormed)
    show ?thesis
    proof (cases "b ! nat (snd n) ! nat (fst n) = opponent")
      case False
      with c have "\<not> pointIs b (gSizeX g) (gSizeY g) opponent n" by (simp add: pointIs_def)
      with False inb c show ?thesis
        using Cons.IH [of captured] by (simp add: n Let_def n_def [symmetric])
    next
      case opp: True
      with c True have st: "pointIs b (gSizeX g) (gSizeY g) opponent (fst n, snd n)"
        by (simp add: pointIs_def)
      from hasLiberty_correct [OF wf ne st]
      have h: "hasLiberty b (fst n) (snd n) opponent (gSizeX g) (gSizeY g)
                 = Some (libertiesOf b opponent (gSizeX g) (gSizeY g) n \<noteq> {})"
        by simp
      from st have st': "pointIs b (gSizeX g) (gSizeY g) opponent n" by simp
      show ?thesis
      proof (cases "libertiesOf b opponent (gSizeX g) (gSizeY g) n = {}")
        case True
        with opp inb c h st' show ?thesis
          using Cons.IH [of "captured @ [n]"] by (simp add: n Let_def n_def [symmetric])
      next
        case False
        with opp inb c h st' show ?thesis
          using Cons.IH [of captured] by (simp add: n Let_def n_def [symmetric])
      qed
    qed
  qed
qed

text \<open>
  Claim C1.  On a board of the game's size, for a point \<open>(x, y)\<close> of the board and
  a colour, \<open>isMoveLegal\<close> returns, and it answers yes exactly when \<open>(x, y)\<close> is
  not the ko point of the current node and, on the scratch copy with the stone
  placed, a neighbouring stone of the opponent is in a group without liberties
  or the group of the placed stone has a liberty.  (That the point is empty is
  not needed for this.)
\<close>

theorem isMoveLegal_iff:
  assumes cur: "getNode g (currentNode g) = Some cur"
    and wf: "wellFormedBoard (gSizeX g) (gSizeY g) (boardState cur)"
    and inb: "(x, y) \<in> cells (gSizeX g) (gSizeY g)"
    and ne: "player \<noteq> empty_cell"
  shows "isMoveLegal g x y player =
     Some (\<not> (x = koX cur \<and> y = koY cur)
           \<and> ((\<exists>d\<in>set dirs.
                  pointIs (placed (boardState cur) x y player) (gSizeX g) (gSizeY g)
                    (switchPlayer player) (stepTo (x, y) d)
                  \<and> libertiesOf (placed (boardState cur) x y player) (switchPlayer player)
                      (gSizeX g) (gSizeY g) (stepTo (x, y) d) = {})
                \<or> libertiesOf (placed (boardState cur) x y player) player
                     (gSizeX g) (gSizeY g) (x, y) \<noteq> {}))"
proof (cases "x = koX cur \<and> y = koY cur")
  case True
  with cur show ?thesis by (simp add: isMoveLegal_def)
next
  case nko: False
  define b' where "b' = placed (boardState cur) x y player"
  from setCell_wellFormed [OF wf inb, of player]
  have sc: "setCell (copyBoard (boardState cur)) x y player = Some b'"
    by (simp add: copyBoard_def b'_def placed_def)
  from wf have wf': "wellFormedBoard (gSizeX g) (gSizeY g) b'"
    unfolding b'_def placed_def by (rule wellFormedBoard_update)
  from cellAt_wellFormed [OF wf' inb] inb wf
  have own: "pointIs b' (gSizeX g) (gSizeY g) player (x, y)"
    by (simp add: pointIs_def b'_def placed_def in_cells wellFormedBoard_def)
  define caps where "caps = filter (\<lambda>n. pointIs b' (gSizeX g) (gSizeY g) (switchPlayer player) n
                    \<and> libertiesOf b' (switchPlayer player) (gSizeX g) (gSizeY g) n = {})
                  (map (stepTo (x, y)) dirs)"
  define capture where "capture \<longleftrightarrow> (\<exists>d\<in>set dirs.
                  pointIs b' (gSizeX g) (gSizeY g) (switchPlayer player) (stepTo (x, y) d)
                  \<and> libertiesOf b' (switchPlayer player) (gSizeX g) (gSizeY g) (stepTo (x, y) d) = {})"
  from getCapturedLoop_correct [OF wf' switchPlayer_not_empty [of player],
      where x = x and y = y and ds = dirs and captured = "[]"]
  have cap: "getCapturedStones g b' x y (switchPlayer player) = Some caps"
    by (simp add: getCapturedStones_def caps_def)
  have len: "0 < length caps \<longleftrightarrow> capture"
    unfolding caps_def capture_def by (simp add: filter_empty_conv)
  note lib = hasLiberty_correct [OF wf' ne own]
  have "isMoveLegal g x y player =
          Some (capture \<or> libertiesOf b' player (gSizeX g) (gSizeY g) (x, y) \<noteq> {})"
  proof (cases capture)
    case True
    with len cur nko sc cap show ?thesis by (simp add: isMoveLegal_def Let_def)
  next
    case False
    with len cur nko sc cap lib show ?thesis by (auto simp: isMoveLegal_def Let_def)
  qed
  with nko show ?thesis unfolding capture_def b'_def by simp
qed

theorem isMoveLegal_iff_witness:
  "getNode branchGame (currentNode branchGame) = Some (heap branchGame ! 2)
   \<and> wellFormedBoard (gSizeX branchGame) (gSizeY branchGame) (boardState (heap branchGame ! 2))
   \<and> (1, 1) \<in> cells (gSizeX branchGame) (gSizeY branchGame)
   \<and> white \<noteq> empty_cell
   \<and> isMoveLegal branchGame 1 1 white = Some True
   \<and> ((\<exists>d\<in>set dirs.
          pointIs (placed (boardState (heap branchGame ! 2)) 1 1 white) 3 3
            (switchPlayer white) (stepTo (1, 1) d)
          \<and> libertiesOf (placed (boardState (heap branchGame ! 2)) 1 1 white) (switchPlayer white)
              3 3 (stepTo (1, 1) d) = {})
        \<or> libertiesOf (placed (boardState (heap branchGame ! 2)) 1 1 white) white 3 3 (1, 1) \<noteq> {})"
proof -
  have a: "getNode branchGame (currentNode branchGame) = Some (heap branchGame ! 2)"
    by (simp add: getNode_def branchGame_def)
  have b: "wellFormedBoard (gSizeX branchGame) (gSizeY branchGame) (boardState (heap branchGame ! 2))"
    by (simp add: wellFormedBoard_def branchGame_def)
  have c: "(1, 1) \<in> cells (gSizeX branchGame) (gSizeY branchGame)"
    by (simp add: in_cells branchGame_def)
  have d: "white \<noteq> empty_cell" by (simp add: white_def empty_cell_def)
  have e: "isMoveLegal branchGame 1 1 white = Some True" by code_simp
  have s: "gSizeX branchGame = 3" "gSizeY branchGame = 3" by (simp_all add: branchGame_def)
  have k: "\<not> (1 = koX (heap branchGame ! 2) \<and> 1 = koY (heap branchGame ! 2))"
    by (simp add: branchGame_def)
  from isMoveLegal_iff [OF a b c d] e k
  have "(\<exists>d\<in>set dirs.
          pointIs (placed (boardState (heap branchGame ! 2)) 1 1 white) 3 3
            (switchPlayer white) (stepTo (1, 1) d)
          \<and> libertiesOf (placed (boardState (heap branchGame ! 2)) 1 1 white) (switchPlayer white)
              3 3 (stepTo (1, 1) d) = {})
        \<or> libertiesOf (placed (boardState (heap branchGame ! 2)) 1 1 white) white 3 3 (1, 1) \<noteq> {}"
    by (simp add: s)
  with a b c d e show ?thesis by simp
qed

section \<open>The balance check\<close>

text \<open>
  The parentheses of a text are balanced when they form a word of the Dyck
  language: the empty word, a balanced word in parentheses, or two balanced
  words in a row.
\<close>

definition parensOf :: "string \<Rightarrow> string" where
  "parensOf content = filter (\<lambda>c. c = CHR ''('' \<or> c = CHR '')'') content"

inductive balanced :: "string \<Rightarrow> bool" where
  balanced_empty: "balanced []"
| balanced_wrap: "balanced w \<Longrightarrow> balanced (CHR ''('' # w @ [CHR '')''])"
| balanced_append: "balanced v \<Longrightarrow> balanced w \<Longrightarrow> balanced (v @ w)"

text \<open>The count that \<open>validateSGF\<close> keeps, on bytes.\<close>

fun depthCheck :: "nat \<Rightarrow> string \<Rightarrow> bool" where
  "depthCheck n [] = (n = 0)"
| "depthCheck n (c # cs) =
     (if c = CHR ''('' then depthCheck (Suc n) cs
      else if c = CHR '')'' then (n > 0 \<and> depthCheck (n - 1) cs)
      else depthCheck n cs)"

definition isUnmatched :: "error \<Rightarrow> bool" where
  "isUnmatched e = (case e of UnmatchedClose i \<Rightarrow> True | UnmatchedOpen \<Rightarrow> True | _ \<Rightarrow> False)"

lemma depthCheck_parensOf: "depthCheck n (parensOf w) = depthCheck n w"
  by (induction w arbitrary: n) (auto simp: parensOf_def)

lemma depthCheck_append:
  "depthCheck n u \<Longrightarrow> depthCheck m v \<Longrightarrow> depthCheck (n + m) (u @ v)"
proof (induction u arbitrary: n)
  case Nil
  then show ?case by simp
next
  case (Cons c u)
  show ?case
  proof (cases "c = CHR ''(''")
    case True
    with Cons.prems have "depthCheck (Suc n) u" by simp
    from Cons.IH [OF this Cons.prems(2)] True show ?thesis by simp
  next
    case no: False
    show ?thesis
    proof (cases "c = CHR '')''")
      case True
      with Cons.prems have n: "n > 0" and "depthCheck (n - 1) u" by simp_all
      from Cons.IH [OF this(2) Cons.prems(2)] n True show ?thesis by simp
    next
      case False
      with no Cons.prems have "depthCheck n u" by simp
      from Cons.IH [OF this Cons.prems(2)] no False show ?thesis by simp
    qed
  qed
qed

lemma balanced_depthCheck: "balanced w \<Longrightarrow> depthCheck 0 w"
proof (induction rule: balanced.induct)
  case balanced_empty
  show ?case by simp
next
  case (balanced_wrap w)
  have "depthCheck 1 [CHR '')'']" by simp
  with balanced_wrap.IH have "depthCheck (0 + 1) (w @ [CHR '')''])" by (rule depthCheck_append)
  then show ?case by simp
next
  case (balanced_append v w)
  then have "depthCheck (0 + 0) (v @ w)" by (intro depthCheck_append)
  then show ?case by simp
qed

lemma balanced_insert: "balanced (v @ w) \<Longrightarrow> balanced (v @ CHR ''('' # CHR '')'' # w)"
proof (induction "v @ w" arbitrary: v w rule: balanced.induct)
  case balanced_empty
  have "balanced (CHR ''('' # [] @ [CHR '')''])" by (intro balanced.intros)
  with balanced_empty show ?case by simp
next
  case (balanced_wrap u)
  have pair: "balanced [CHR ''('', CHR '')'']"
    using balanced.balanced_wrap [OF balanced.balanced_empty] by simp
  show ?case
  proof (cases v)
    case Nil
    with balanced_wrap.hyps have "balanced w"
      using balanced.balanced_wrap [of u] by simp
    with pair have "balanced ([CHR ''('', CHR '')''] @ w)" by (rule balanced.balanced_append)
    with Nil show ?thesis by simp
  next
    case (Cons c v')
    with balanced_wrap.hyps have c: "c = CHR ''(''" and rest: "u @ [CHR '')''] = v' @ w" by simp_all
    show ?thesis
    proof (cases w rule: rev_cases)
      case Nil
      with balanced_wrap.hyps Cons have "balanced v"
        using balanced.balanced_wrap [of u] by simp
      from this pair have "balanced (v @ [CHR ''('', CHR '')''])" by (rule balanced.balanced_append)
      with Nil show ?thesis by simp
    next
      case (snoc w' d)
      with rest have u: "u = v' @ w'" and d: "d = CHR '')''" by simp_all
      from u have "balanced (v' @ CHR ''('' # CHR '')'' # w')" by (rule balanced_wrap.hyps(2))
      then have "balanced (CHR ''('' # (v' @ CHR ''('' # CHR '')'' # w') @ [CHR '')''])"
        by (rule balanced.balanced_wrap)
      with Cons c snoc d show ?thesis by simp
    qed
  qed
next
  case (balanced_append s t)
  from balanced_append.hyps(5) show ?case
  proof (simp only: append_eq_append_conv2, elim exE disjE conjE)
    fix us
    assume s: "s @ us = v" and t: "t = us @ w"
    from t have "balanced (us @ CHR ''('' # CHR '')'' # w)" by (rule balanced_append.hyps(4))
    with balanced_append.hyps(1) have "balanced (s @ us @ CHR ''('' # CHR '')'' # w)"
      by (rule balanced.balanced_append)
    with s show "balanced (v @ CHR ''('' # CHR '')'' # w)" by auto
  next
    fix us
    assume s: "s = v @ us" and t: "us @ t = w"
    from s have "balanced (v @ CHR ''('' # CHR '')'' # us)" by (rule balanced_append.hyps(2))
    from this balanced_append.hyps(3) have "balanced ((v @ CHR ''('' # CHR '')'' # us) @ t)"
      by (rule balanced.balanced_append)
    with t show "balanced (v @ CHR ''('' # CHR '')'' # w)" by auto
  qed
qed

lemma depthCheck_balanced:
  "depthCheck n w \<Longrightarrow> balanced (replicate n (CHR ''('') @ parensOf w)"
proof (induction w arbitrary: n)
  case Nil
  then show ?case by (simp add: parensOf_def balanced.balanced_empty)
next
  case (Cons c w)
  show ?case
  proof (cases "c = CHR ''(''")
    case True
    with Cons.prems have "depthCheck (Suc n) w" by simp
    then have "balanced (replicate (Suc n) (CHR ''('') @ parensOf w)" by (rule Cons.IH)
    with True show ?thesis by (simp add: parensOf_def replicate_app_Cons_same)
  next
    case no: False
    show ?thesis
    proof (cases "c = CHR '')''")
      case True
      with Cons.prems have n: "n > 0" and "depthCheck (n - 1) w" by simp_all
      then have "balanced (replicate (n - 1) (CHR ''('') @ parensOf w)" by (intro Cons.IH)
      then have "balanced (replicate (n - 1) (CHR ''('') @ CHR ''('' # CHR '')'' # parensOf w)"
        by (rule balanced_insert)
      moreover from n have "replicate (n - 1) (CHR ''('') @ [CHR ''('']  = replicate n (CHR ''('')"
        by (metis Suc_pred' replicate_append_same replicate_Suc)
      ultimately have "balanced (replicate n (CHR ''('') @ CHR '')'' # parensOf w)"
        by (metis append.assoc append_Cons append_Nil)
      with True show ?thesis by (simp add: parensOf_def)
    next
      case False
      with no Cons.prems have "depthCheck n w" by simp
      then have "balanced (replicate n (CHR ''('') @ parensOf w)" by (rule Cons.IH)
      with no False show ?thesis by (simp add: parensOf_def)
    qed
  qed
qed

lemma depthCheck_iff_balanced: "depthCheck 0 w \<longleftrightarrow> balanced (parensOf w)"
proof
  assume "depthCheck 0 w"
  from depthCheck_balanced [OF this] show "balanced (parensOf w)" by simp
next
  assume "balanced (parensOf w)"
  then have "depthCheck 0 (parensOf w)" by (rule balanced_depthCheck)
  then show "depthCheck 0 w" by (simp add: depthCheck_parensOf)
qed

text \<open>
  A byte below 128 is a rune of width one; every other rune that
  \<open>decodeRuneInString\<close> returns is no parenthesis and spans bytes of 128 or more.
\<close>

lemma decodeRune_ascii:
  assumes "(of_char c :: nat) < 128"
  shows "decodeRuneInString (c # rest) = (int (of_char c), 1)"
  using assms by (simp add: decodeRuneInString_def)

lemma decodeRune_bad:
  assumes "128 \<le> (of_char c :: nat)" and "(of_char c :: nat) < 194 \<or> (of_char c :: nat) > 244"
  shows "decodeRuneInString (c # rest) = (runeError, 1)"
  using assms by (auto simp: decodeRuneInString_def)

lemma decodeRune_two:
  assumes "194 \<le> (of_char c :: nat)" and "(of_char c :: nat) < 224"
  shows "decodeRuneInString (c # rest) =
    (if rest = [] \<or> (of_char (rest ! 0) :: nat) < 128 \<or> 191 < (of_char (rest ! 0) :: nat)
     then (runeError, 1)
     else (int (((of_char c :: nat) mod 32) * 64 + (of_char (rest ! 0) :: nat) mod 64), 2))"
proof (cases rest)
  case Nil
  with assms show ?thesis by (simp add: decodeRuneInString_def)
next
  case (Cons c1 r1)
  with assms show ?thesis by (simp add: decodeRuneInString_def Let_def)
qed

lemma decodeRune_three:
  assumes "224 \<le> (of_char c :: nat)" and "(of_char c :: nat) < 240"
  shows "decodeRuneInString (c # rest) =
    (if length rest < 2
        \<or> (of_char (rest ! 0) :: nat) < (if (of_char c :: nat) = 224 then 160 else 128)
        \<or> (if (of_char c :: nat) = 237 then 159 else 191) < (of_char (rest ! 0) :: nat)
        \<or> (of_char (rest ! 1) :: nat) < 128 \<or> 191 < (of_char (rest ! 1) :: nat)
     then (runeError, 1)
     else (int (((of_char c :: nat) mod 16) * 4096 + ((of_char (rest ! 0) :: nat) mod 64) * 64
                + (of_char (rest ! 1) :: nat) mod 64), 3))"
proof (cases "length rest < 2")
  case True
  with assms show ?thesis by (simp add: decodeRuneInString_def Let_def)
next
  case False
  then obtain c1 c2 r2 where "rest = c1 # c2 # r2"
    by (cases rest; cases "tl rest") auto
  with assms show ?thesis by (simp add: decodeRuneInString_def Let_def)
qed

lemma decodeRune_four:
  assumes "240 \<le> (of_char c :: nat)" and "(of_char c :: nat) \<le> 244"
  shows "decodeRuneInString (c # rest) =
    (if length rest < 3
        \<or> (of_char (rest ! 0) :: nat) < (if (of_char c :: nat) = 240 then 144 else 128)
        \<or> (if (of_char c :: nat) = 244 then 143 else 191) < (of_char (rest ! 0) :: nat)
        \<or> (of_char (rest ! 1) :: nat) < 128 \<or> 191 < (of_char (rest ! 1) :: nat)
        \<or> (of_char (rest ! 2) :: nat) < 128 \<or> 191 < (of_char (rest ! 2) :: nat)
     then (runeError, 1)
     else (int (((of_char c :: nat) mod 8) * 262144 + ((of_char (rest ! 0) :: nat) mod 64) * 4096
                + ((of_char (rest ! 1) :: nat) mod 64) * 64 + (of_char (rest ! 2) :: nat) mod 64), 4))"
proof (cases "length rest < 3")
  case True
  with assms show ?thesis by (simp add: decodeRuneInString_def Let_def)
next
  case False
  then obtain c1 c2 c3 r3 where "rest = c1 # c2 # c3 # r3"
    by (cases rest; cases "tl rest"; cases "tl (tl rest)") auto
  with assms show ?thesis by (simp add: decodeRuneInString_def Let_def)
qed

lemma mod_window:
  fixes v m q lo :: nat
  assumes "q * m + lo \<le> v" and "v < q * m + m"
  shows "lo \<le> v mod m"
proof -
  define k where "k = v - q * m"
  with assms have v: "v = q * m + k" and k: "lo \<le> k" "k < m" by simp_all
  have "v mod m = k mod m" unfolding v by (rule mod_mult_self3)
  with k show ?thesis by simp
qed

lemma decodeRune_high:
  assumes hi: "(of_char c :: nat) \<ge> 128" and dec: "decodeRuneInString (c # rest) = (r, w)"
  shows "r \<noteq> 40 \<and> r \<noteq> 41 \<and> 1 \<le> w \<and> w \<le> length (c # rest)
         \<and> (\<forall>k<w. (of_char ((c # rest) ! k) :: nat) \<ge> 128)"
proof -
  define s0 where "s0 = (of_char c :: nat)"
  define b0 where "b0 = (of_char (rest ! 0) :: nat)"
  define b1 where "b1 = (of_char (rest ! 1) :: nat)"
  define b2 where "b2 = (of_char (rest ! 2) :: nat)"
  have invalid: ?thesis if "r = runeError" "w = 1"
    using that hi by (simp add: runeError_def)
  consider (bad) "s0 < 194 \<or> s0 > 244"
    | (two) "194 \<le> s0" "s0 < 224" | (three) "224 \<le> s0" "s0 < 240"
    | (four) "240 \<le> s0" "s0 \<le> 244"
    by linarith
  then show ?thesis
  proof cases
    case bad
    with hi dec decodeRune_bad [of c rest] have "r = runeError" "w = 1" by (simp_all add: s0_def)
    then show ?thesis by (rule invalid)
  next
    case two
    note d = decodeRune_two [OF two [unfolded s0_def], of rest]
    show ?thesis
    proof (cases "rest = [] \<or> b0 < 128 \<or> 191 < b0")
      case True
      with d dec have "r = runeError" "w = 1" by (simp_all add: b0_def)
      then show ?thesis by (rule invalid)
    next
      case False
      with d dec have r: "r = int ((s0 mod 32) * 64 + b0 mod 64)" and w: "w = 2"
        by (simp_all add: b0_def s0_def)
      from two have "2 \<le> s0 mod 32" using mod_window [of 6 32 2 s0] by simp
      then have "128 \<le> (s0 mod 32) * 64" by simp
      with r have "r \<ge> 128" by simp
      moreover have "(of_char ((c # rest) ! k) :: nat) \<ge> 128" if "k < 2" for k
      proof -
        from that consider "k = 0" | "k = 1" by linarith
        then show ?thesis using hi False by cases (simp_all add: b0_def)
      qed
      moreover from False have "2 \<le> length (c # rest)" by (cases rest) simp_all
      ultimately show ?thesis using w by simp
    qed
  next
    case three
    note d = decodeRune_three [OF three [unfolded s0_def], of rest]
    define lo :: nat where "lo = (if s0 = 224 then 160 else 128)"
    define up :: nat where "up = (if s0 = 237 then 159 else 191)"
    have lo: "128 \<le> lo" and up: "up \<le> 191" by (simp_all add: lo_def up_def)
    show ?thesis
    proof (cases "length rest < 2 \<or> b0 < lo \<or> up < b0 \<or> b1 < 128 \<or> 191 < b1")
      case True
      with d dec have "r = runeError" "w = 1"
        by (simp_all add: b0_def b1_def lo_def up_def s0_def)
      then show ?thesis by (rule invalid)
    next
      case False
      with d dec have r: "r = int ((s0 mod 16) * 4096 + (b0 mod 64) * 64 + b1 mod 64)"
        and w: "w = 3"
        by (simp_all add: b0_def b1_def lo_def up_def s0_def)
      have "128 \<le> (s0 mod 16) * 4096 + (b0 mod 64) * 64"
      proof (cases "s0 = 224")
        case True
        with False have "160 \<le> b0" "b0 \<le> 191" using up by (simp_all add: lo_def)
        then have "32 \<le> b0 mod 64" using mod_window [of 2 64 32 b0] by simp
        then show ?thesis by simp
      next
        case ne: False
        with three have "1 \<le> s0 mod 16" using mod_window [of 14 16 1 s0] by simp
        then show ?thesis by simp
      qed
      with r have "r \<ge> 128" by simp
      moreover have "(of_char ((c # rest) ! k) :: nat) \<ge> 128" if "k < 3" for k
      proof -
        from that consider "k = 0" | "k = 1" | "k = 2" by linarith
        then show ?thesis using hi False lo by cases (simp_all add: b0_def b1_def)
      qed
      moreover from False have "3 \<le> length (c # rest)" by simp
      ultimately show ?thesis using w by simp
    qed
  next
    case four
    note d = decodeRune_four [OF four [unfolded s0_def], of rest]
    define lo :: nat where "lo = (if s0 = 240 then 144 else 128)"
    define up :: nat where "up = (if s0 = 244 then 143 else 191)"
    have lo: "128 \<le> lo" and up: "up \<le> 191" by (simp_all add: lo_def up_def)
    show ?thesis
    proof (cases "length rest < 3 \<or> b0 < lo \<or> up < b0 \<or> b1 < 128 \<or> 191 < b1
        \<or> b2 < 128 \<or> 191 < b2")
      case True
      with d dec have "r = runeError" "w = 1"
        by (simp_all add: b0_def b1_def b2_def lo_def up_def s0_def)
      then show ?thesis by (rule invalid)
    next
      case False
      with d dec
      have r: "r = int ((s0 mod 8) * 262144 + (b0 mod 64) * 4096 + (b1 mod 64) * 64 + b2 mod 64)"
        and w: "w = 4"
        by (simp_all add: b0_def b1_def b2_def lo_def up_def s0_def)
      have "128 \<le> (s0 mod 8) * 262144 + (b0 mod 64) * 4096"
      proof (cases "s0 = 240")
        case True
        with False have "144 \<le> b0" "b0 \<le> 191" using up by (simp_all add: lo_def)
        then have "16 \<le> b0 mod 64" using mod_window [of 2 64 16 b0] by simp
        then show ?thesis by simp
      next
        case ne: False
        with four have "1 \<le> s0 mod 8" using mod_window [of 30 8 1 s0] by simp
        then show ?thesis by simp
      qed
      with r have "r \<ge> 128" by simp
      moreover have "(of_char ((c # rest) ! k) :: nat) \<ge> 128" if "k < 4" for k
      proof -
        from that consider "k = 0" | "k = 1" | "k = 2" | "k = 3" by linarith
        then show ?thesis using hi False lo by cases (simp_all add: b0_def b1_def b2_def)
      qed
      moreover from False have "4 \<le> length (c # rest)" by simp
      ultimately show ?thesis using w by simp
    qed
  qed
qed

text \<open>
  The scan of \<open>validateSGF\<close> walks over runes; since no rune of two or more
  bytes contains a parenthesis byte, it computes the count on bytes.
\<close>

lemma depthCheck_skip:
  assumes "\<forall>c\<in>set xs. c \<noteq> CHR ''('' \<and> c \<noteq> CHR '')''"
  shows "depthCheck n (xs @ ys) = depthCheck n ys"
  using assms by (induction xs) auto

lemma high_not_paren:
  assumes "(of_char c :: nat) \<ge> 128"
  shows "c \<noteq> CHR ''('' \<and> c \<noteq> CHR '')''"
  using assms by auto

lemma ascii_open: "(of_char c :: nat) = 40 \<longleftrightarrow> c = CHR ''(''"
proof -
  have "(of_char (CHR ''('') :: nat) = 40" by simp
  then show ?thesis by (metis of_char_eq_iff)
qed

lemma ascii_close: "(of_char c :: nat) = 41 \<longleftrightarrow> c = CHR '')''"
proof -
  have "(of_char (CHR '')'') :: nat) = 41" by simp
  then show ?thesis by (metis of_char_eq_iff)
qed

lemma decodeRune_paren:
  assumes dec: "decodeRuneInString (c # rest) = (r, w)"
  shows "(r = 40 \<longleftrightarrow> c = CHR ''('') \<and> (r = 41 \<longleftrightarrow> c = CHR '')'')
         \<and> 1 \<le> w \<and> w \<le> length (c # rest)
         \<and> (\<forall>n. depthCheck n (c # rest) = depthCheck n (c # drop (w - 1) rest))"
proof (cases "(of_char c :: nat) < 128")
  case True
  from decodeRune_ascii [OF True, of rest] dec have r: "r = int (of_char c)" and w: "w = 1"
    by simp_all
  have "(r = 40) = ((of_char c :: nat) = 40)" "(r = 41) = ((of_char c :: nat) = 41)"
    unfolding r by linarith+
  with w show ?thesis by (simp add: ascii_open ascii_close)
next
  case False
  then have hi: "(of_char c :: nat) \<ge> 128" by simp
  from decodeRune_high [OF hi dec]
  have r: "r \<noteq> 40" "r \<noteq> 41" and w: "1 \<le> w" "w \<le> length (c # rest)"
    and bytes: "\<forall>k<w. (of_char ((c # rest) ! k) :: nat) \<ge> 128"
    by simp_all
  have skip: "\<forall>d\<in>set (take (w - 1) rest). d \<noteq> CHR ''('' \<and> d \<noteq> CHR '')''"
  proof
    fix d
    assume "d \<in> set (take (w - 1) rest)"
    then obtain j where j: "j < length (take (w - 1) rest)" and d: "d = take (w - 1) rest ! j"
      by (auto simp: in_set_conv_nth)
    from j have jw: "Suc j < w" and "j < length rest" by (simp_all, linarith)
    with d have "d = (c # rest) ! Suc j" by simp
    with bytes jw have "(of_char d :: nat) \<ge> 128" by blast
    then show "d \<noteq> CHR ''('' \<and> d \<noteq> CHR '')''" by (rule high_not_paren)
  qed
  have "depthCheck n (c # rest) = depthCheck n (c # drop (w - 1) rest)" for n
  proof -
    have "depthCheck n (take (w - 1) rest @ drop (w - 1) rest)
               = depthCheck n (drop (w - 1) rest)"
      using skip by (rule depthCheck_skip)
    then have "depthCheck n rest = depthCheck n (drop (w - 1) rest)" by simp
    then show ?thesis using high_not_paren [OF hi] by simp
  qed
  with r w high_not_paren [OF hi] show ?thesis by simp
qed

lemma validateLoop_end:
  assumes "\<not> i < length content"
  shows "validateLoop content i k = (if k \<noteq> 0 then Some UnmatchedOpen else None)"
  using assms by (subst validateLoop.simps) simp

lemma validateLoop_step:
  assumes lt: "i < length content"
  obtains w where "1 \<le> w" and "i + w \<le> length content"
    and "validateLoop content i k =
          (if content ! i = CHR ''('' then validateLoop content (i + w) (k + 1)
           else if content ! i = CHR '')'' then
             (if k - 1 < 0 then Some (UnmatchedClose i) else validateLoop content (i + w) (k - 1))
           else validateLoop content (i + w) k)"
    and "\<And>n. depthCheck n (drop i content) = depthCheck n (content ! i # drop (i + w) content)"
proof -
  obtain r w where dec: "decodeRuneInString (drop i content) = (r, w)"
    by (cases "decodeRuneInString (drop i content)")
  from lt have split: "drop i content = content ! i # drop (Suc i) content"
    by (simp add: Cons_nth_drop_Suc)
  note p = decodeRune_paren [OF dec [unfolded split]]
  from p have w: "1 \<le> w" "w \<le> length (content ! i # drop (Suc i) content)" by simp_all
  then have a: "1 \<le> w" and b: "i + w \<le> length content" using lt by simp_all
  from w have dr: "drop (w - 1) (drop (Suc i) content) = drop (i + w) content"
    by (simp add: add.commute)
  have c: "validateLoop content i k =
          (if content ! i = CHR ''('' then validateLoop content (i + w) (k + 1)
           else if content ! i = CHR '')'' then
             (if k - 1 < 0 then Some (UnmatchedClose i) else validateLoop content (i + w) (k - 1))
           else validateLoop content (i + w) k)"
    using lt dec p by (subst validateLoop.simps) simp
  have d: "depthCheck n (drop i content) = depthCheck n (content ! i # drop (i + w) content)" for n
    using p dr by (simp only: split)
  from a b c d show thesis by (rule that)
qed

lemma validateLoop_depthCheck:
  assumes "0 \<le> k"
  shows "(validateLoop content i k = None \<longleftrightarrow> depthCheck (nat k) (drop i content))
         \<and> (\<forall>e. validateLoop content i k = Some e \<longrightarrow> isUnmatched e)"
  using assms
proof (induction "length content - i" arbitrary: i k rule: less_induct)
  case less
  show ?case
  proof (cases "i < length content")
    case False
    with less.prems show ?thesis
      by (auto simp: validateLoop_end isUnmatched_def)
  next
    case True
    from validateLoop_step [OF True, of k] obtain w where w: "1 \<le> w" "i + w \<le> length content"
      and v: "validateLoop content i k =
          (if content ! i = CHR ''('' then validateLoop content (i + w) (k + 1)
           else if content ! i = CHR '')'' then
             (if k - 1 < 0 then Some (UnmatchedClose i) else validateLoop content (i + w) (k - 1))
           else validateLoop content (i + w) k)"
      and d: "\<And>n. depthCheck n (drop i content) = depthCheck n (content ! i # drop (i + w) content)"
      by blast
    from w True have m: "length content - (i + w) < length content - i" by simp
    show ?thesis
    proof (cases "content ! i = CHR ''(''")
      case op: True
      from less.prems have "0 \<le> k + 1" by simp
      from less.hyps [OF m this] op v d [of "nat k"] less.prems show ?thesis
        by (simp add: nat_add_distrib)
    next
      case nop: False
      show ?thesis
      proof (cases "content ! i = CHR '')''")
        case False
        from less.hyps [OF m less.prems] nop False v d [of "nat k"] show ?thesis by simp
      next
        case cl: True
        show ?thesis
        proof (cases "k = 0")
          case True
          with cl nop v d [of "nat k"] show ?thesis by (simp add: isUnmatched_def)
        next
          case False
          with less.prems have k: "0 \<le> k - 1" "\<not> k - 1 < 0" "0 < nat k" by simp_all
          from less.hyps [OF m k(1)] cl nop v d [of "nat k"] k show ?thesis
            by (simp add: nat_diff_distrib)
        qed
      qed
    qed
  qed
qed

lemma validateSGF_balanced: "validateSGF content = None \<longleftrightarrow> balanced (parensOf content)"
  using validateLoop_depthCheck [of 0 content 0]
  by (simp add: validateSGF_def depthCheck_iff_balanced)

lemma validateSGF_unmatched: "validateSGF content = Some e \<Longrightarrow> isUnmatched e"
  using validateLoop_depthCheck [of 0 content 0]
  by (simp add: validateSGF_def)

text \<open>
  Claim C7, as the code has it.  \<open>parseSGF\<close> works in two passes.  The first,
  \<open>validateSGF\<close>, scans the whole text and accepts it exactly when its
  parentheses, every \<open>(\<close> and \<open>)\<close> of the text wherever it stands, are balanced;
  square brackets are not counted.  For every text whose parentheses are not
  balanced, \<open>parseSGF\<close> returns the unmatched error of that scan, whatever the
  structural parser would do; for every other text the result is that of the
  recursive-descent parse \<open>parseCollection\<close>.
\<close>

theorem parseSGF_validates_parentheses_first:
  "(validateSGF content = None \<longleftrightarrow> balanced (parensOf content))
   \<and> (\<not> balanced (parensOf content) \<longrightarrow>
        (\<exists>e. isUnmatched e \<and> validateSGF content = Some e \<and> parseSGF upper content = Inl e))
   \<and> (balanced (parensOf content) \<longrightarrow>
        parseSGF upper content =
          (case parseCollection upper content 0 [] of
             (Inl err, index) \<Rightarrow> Inl (ParseErrorAt index err)
           | (Inr collection, index) \<Rightarrow> Inr collection))"
proof (intro conjI impI)
  show "validateSGF content = None \<longleftrightarrow> balanced (parensOf content)"
    by (rule validateSGF_balanced)
next
  assume "\<not> balanced (parensOf content)"
  then have "validateSGF content \<noteq> None" by (simp add: validateSGF_balanced)
  then obtain e where e: "validateSGF content = Some e" by blast
  then have "isUnmatched e" by (rule validateSGF_unmatched)
  moreover from e have "parseSGF upper content = Inl e" by (simp add: parseSGF_def)
  ultimately show "\<exists>e. isUnmatched e \<and> validateSGF content = Some e \<and> parseSGF upper content = Inl e"
    using e by blast
next
  assume "balanced (parensOf content)"
  then have "validateSGF content = None" by (simp add: validateSGF_balanced)
  then show "parseSGF upper content =
          (case parseCollection upper content 0 [] of
             (Inl err, index) \<Rightarrow> Inl (ParseErrorAt index err)
           | (Inr collection, index) \<Rightarrow> Inr collection)"
    by (simp add: parseSGF_def)
qed

theorem parseSGF_validates_parentheses_first_witness:
  "\<not> balanced (parensOf ''(('') \<and> parseSGF upperLatin1 ''(('' = Inl UnmatchedOpen
   \<and> balanced (parensOf ''(;C[a])'')
   \<and> parseSGF upperLatin1 ''(;C[a])'' = Inr [SGFGameTree [[(''C'', [''a''])]] []]"
proof -
  note t1 = parseSGF_validates_parentheses_first [of "''((''" upperLatin1]
  note t2 = parseSGF_validates_parentheses_first [of "''(;C[a])''" upperLatin1]
  have v1: "validateSGF ''(('' = Some UnmatchedOpen" by code_simp
  with t1 have n1: "\<not> balanced (parensOf ''(('')" by simp
  with t1 v1 have r1: "parseSGF upperLatin1 ''(('' = Inl UnmatchedOpen" by auto
  have "validateSGF ''(;C[a])'' = None" by code_simp
  with t2 have b2: "balanced (parensOf ''(;C[a])'')" by simp
  have "parseCollection upperLatin1 ''(;C[a])'' 0 [] = (Inr [SGFGameTree [[(''C'', [''a''])]] []], 7)"
    by code_simp
  with t2 b2 have r2: "parseSGF upperLatin1 ''(;C[a])'' = Inr [SGFGameTree [[(''C'', [''a''])]] []]"
    by simp
  from n1 r1 b2 r2 show ?thesis by simp
qed

text \<open>
  The claim as it is written fails on a text with a closing square bracket too
  many: the scan does not look at brackets, and the structural parse stops at
  the bracket and returns the tree it has read.
\<close>

theorem parseSGF_accepts_unbalanced_brackets:
  "count_list ''(;C[a])]'' CHR ''['' < count_list ''(;C[a])]'' CHR '']''
   \<and> parseSGF upperLatin1 ''(;C[a])]'' = Inr [SGFGameTree [[(''C'', [''a''])]] []]"
proof
  show "count_list ''(;C[a])]'' CHR ''['' < count_list ''(;C[a])]'' CHR '']''" by simp
  show "parseSGF upperLatin1 ''(;C[a])]'' = Inr [SGFGameTree [[(''C'', [''a''])]] []]"
    by code_simp
qed

lemma floodDirs_stack:
  "floodDirs sizeX sizeY board tmap visited cx cy ds stack adjacentStones = Some (stack', adj')
   \<Longrightarrow> set stack' \<subseteq> set stack \<union> cells sizeX sizeY"
proof (induction ds arbitrary: stack adjacentStones)
  case Nil
  then show ?case by auto
next
  case (Cons d ds)
  show ?case
  proof (cases "cx + fst d \<ge> 0 \<and> cx + fst d < sizeX \<and> cy + snd d \<ge> 0 \<and> cy + snd d < sizeY")
    case False
    with Cons.prems have "floodDirs sizeX sizeY board tmap visited cx cy ds stack adjacentStones
        = Some (stack', adj')"
      by (auto simp: Let_def)
    then show ?thesis by (rule Cons.IH)
  next
    case True
    then have inb: "(cx + fst d, cy + snd d) \<in> cells sizeX sizeY" by (simp add: in_cells)
    from Cons.prems True obtain st ad where
      rec: "floodDirs sizeX sizeY board tmap visited cx cy ds st ad = Some (stack', adj')"
      and st: "st = stack \<or> st = stack @ [(cx + fst d, cy + snd d)]"
      by (auto simp: Let_def split: option.splits if_splits)
    from rec have "set stack' \<subseteq> set st \<union> cells sizeX sizeY" by (rule Cons.IH)
    with st inb show ?thesis by auto
  qed
qed

section \<open>Passing\<close>










section \<open>Import of a record with a board that is too large\<close>

lemma parseSGF_SZ53:
  "parseSGF upperLatin1 ''(;SZ[53])'' = Inr [SGFGameTree [[(''SZ'', [''53''])]] []]"
  by code_simp

lemma sizeFromSZ_53:
  "sizeFromSZ g [(''SZ'', [''53''])] = Inr (g\<lparr>gSizeX := 53, gSizeY := 53\<rparr>)"
proof -
  have a: "propGet [(''SZ'', [''53''])] ''SZ'' = Some [''53'']" by code_simp
  have b: "splitOn CHR '':'' ''53'' = [''53'']" by code_simp
  have c: "atoi ''53'' = Inr 53" by code_simp
  show ?thesis by (simp add: sizeFromSZ_def a b c Let_def)
qed

text \<open>
  Claim C6 at the record \<open>(;SZ[53])\<close>.  The import returns the error for a board
  that is too large, and the game it leaves behind has the width and the height
  of the record: \<open>initializeGameFromSGFTree\<close> writes \<open>g.sizeX\<close> and \<open>g.sizeY\<close>
  before it compares them with 52.  The root node, the current node and the
  nodes are those of before.
\<close>

theorem importFromSGF_oversized_writes_size:
  "importFromSGF upperLatin1 g ''(;SZ[53])''
     = Some (Some BoardTooLarge, g\<lparr>gSizeX := 53, gSizeY := 53\<rparr>)"
  by (simp add: importFromSGF_def parseSGF_SZ53 initializeGameFromSGFTree_def sizeFromSZ_53)

section \<open>Export and import again\<close>

lemma import_some:
  assumes "map_option (apsnd f) r = Some (None, t)"
  shows "\<exists>g'. r = Some (None, g') \<and> f g' = t"
  using assms by (cases r) auto

text \<open>
  Claim C3 at the game \<open>branchGame\<close>, whose root node has two variations.  The
  export writes both, each in its own parentheses after the root node; the
  import of that text succeeds and builds a tree whose root node has one child,
  the move of the second variation.  The move of the first one is lost:
  \<open>processMainLine\<close>, called for the first variation with the root node as
  parent, takes the first node of the variation for the root node and skips it.
\<close>

theorem export_import_loses_root_variation:
  "gameMoves branchGame = Some (MoveTree (0, 0) [MoveTree (1, 0) [], MoveTree (0, 1) []])
   \<and> exportToSGF branchGame = Some branchText
   \<and> (\<exists>g'. importFromSGF upperLatin1 branchGame branchText = Some (None, g')
          \<and> gameMoves g' = Some (MoveTree (0, 0) [MoveTree (0, 1) []]))"
proof (intro conjI)
  show "gameMoves branchGame = Some (MoveTree (0, 0) [MoveTree (1, 0) [], MoveTree (0, 1) []])"
    by code_simp
  show "exportToSGF branchGame = Some branchText"
    by code_simp
  have "map_option (apsnd gameMoves) (importFromSGF upperLatin1 branchGame branchText)
        = Some (None, Some (MoveTree (0, 0) [MoveTree (0, 1) []]))"
    by code_simp
  then show "\<exists>g'. importFromSGF upperLatin1 branchGame branchText = Some (None, g')
          \<and> gameMoves g' = Some (MoveTree (0, 0) [MoveTree (0, 1) []])"
    by (rule import_some)
qed

end
